theory Spec2Isabelle
  imports Main "HOL-Library.Word" "HOL-Library.Sublist" "HOL-Library.Multiset"
begin

section \<open>JavaScript strings\<close>

text \<open>
  A JavaScript string is a sequence of 16-bit code units.  Every string operation of
  \<^verbatim>\<open>src/utils.ts\<close> (\<^verbatim>\<open>split\<close>, \<^verbatim>\<open>startsWith\<close>, regular expressions without the
  \<^verbatim>\<open>u\<close> flag) works on code units, and \<^verbatim>\<open>encodeURIComponent\<close> and
  \<^verbatim>\<open>JSON.stringify\<close> look at surrogate code units, so strings are lists of
  \<^typ>\<open>16 word\<close>.  \<open>S\<close> embeds an ASCII literal.
\<close>

type_synonym jschar = "16 word"
type_synonym jsstring = "jschar list"

definition ch :: "char \<Rightarrow> jschar" where
  "ch c = of_char c"

definition S :: "string \<Rightarrow> jsstring" where
  "S cs = map ch cs"

definition startsWith :: "jsstring \<Rightarrow> jsstring \<Rightarrow> bool" where
  "startsWith s p = (take (length p) s = p)"

definition endsWith :: "jsstring \<Rightarrow> jsstring \<Rightarrow> bool" where
  "endsWith s p = (length p \<le> length s \<and> drop (length s - length p) s = p)"

text \<open>
  \<^verbatim>\<open>s.indexOf(p)\<close>, with \<open>None\<close> for -1, and \<^verbatim>\<open>s.includes(p)\<close>.
\<close>

fun index_of :: "jsstring \<Rightarrow> jsstring \<Rightarrow> nat option" where
  "index_of p [] = (if p = [] then Some 0 else None)"
| "index_of p (c # cs) =
     (if take (length p) (c # cs) = p then Some 0
      else map_option Suc (index_of p cs))"

definition str_includes :: "jsstring \<Rightarrow> jsstring \<Rightarrow> bool" where
  "str_includes s p = (index_of p s \<noteq> None)"

text \<open>
  Two executable tests used to locate first occurrences.  \<open>compatible p s\<close>: one of
  \<open>p\<close> and \<open>s\<close> is a prefix of the other.  \<open>clean p s\<close>: no position of \<open>s\<close> starts
  an occurrence of \<open>p\<close>, not even one that would run past the end of \<open>s\<close>.
\<close>

fun compatible :: "'a list \<Rightarrow> 'a list \<Rightarrow> bool" where
  "compatible [] s = True"
| "compatible (x # p) [] = True"
| "compatible (x # p) (c # s) = (x = c \<and> compatible p s)"

fun clean :: "'a list \<Rightarrow> 'a list \<Rightarrow> bool" where
  "clean p [] = True"
| "clean p (c # s) = (\<not> compatible p (c # s) \<and> clean p s)"

text \<open>\<^verbatim>\<open>s.split(sep)\<close> for a one-character separator: never empty, \<^verbatim>\<open>"".split("/")\<close> is \<^verbatim>\<open>[""]\<close>.\<close>

fun split_on :: "jschar \<Rightarrow> jsstring \<Rightarrow> jsstring list" where
  "split_on sep [] = [[]]"
| "split_on sep (c # cs) =
     (if c = sep then [] # split_on sep cs
      else (case split_on sep cs of
              [] \<Rightarrow> [[c]]
            | x # xs \<Rightarrow> (c # x) # xs))"

text \<open>\<^verbatim>\<open>parts.join(sep)\<close>; the empty array joins to the empty string.\<close>

fun join :: "jsstring \<Rightarrow> jsstring list \<Rightarrow> jsstring" where
  "join sep [] = []"
| "join sep [x] = x"
| "join sep (x # y # ys) = x @ sep @ join sep (y # ys)"

section \<open>The specifier resolver\<close>

text \<open>
  \<^verbatim>\<open>resolveModuleSpecifier\<close> (src/utils.ts, lines 30-50).  \<open>resolve_loop\<close> is the
  \<^verbatim>\<open>for (const part of parts)\<close> loop over the mutable array \<^verbatim>\<open>resolvedParts\<close>;
  \<^verbatim>\<open>pop()\<close> is guarded by \<^verbatim>\<open>resolvedParts.length > 0\<close>.
\<close>

fun resolve_loop :: "jsstring list \<Rightarrow> jsstring list \<Rightarrow> jsstring list" where
  "resolve_loop resolvedParts [] = resolvedParts"
| "resolve_loop resolvedParts (part # parts) =
     (if part = S ''.'' then resolve_loop resolvedParts parts
      else if part = S ''..'' then
        (if length resolvedParts > 0 then resolve_loop (butlast resolvedParts) parts
         else resolve_loop resolvedParts parts)
      else resolve_loop (resolvedParts @ [part]) parts)"

definition resolveModuleSpecifier :: "jsstring \<Rightarrow> jsstring \<Rightarrow> jsstring" where
  "resolveModuleSpecifier sourcePath specifier =
     (if \<not> startsWith specifier (S ''.'') \<and> \<not> startsWith specifier (S ''/'') then specifier
      else if startsWith specifier (S ''/'') then drop 1 specifier
      else
        (let sourceDir = butlast (split_on (ch CHR ''/'') sourcePath);
             parts = split_on (ch CHR ''/'') specifier
         in join (S ''/'') (resolve_loop sourceDir parts)))"

text \<open>
  The resolver as section 4.1 of the specification words it: one segment of the
  specifier applied to the directory segments collected so far.
\<close>

definition apply_segment :: "jsstring list \<Rightarrow> jsstring \<Rightarrow> jsstring list" where
  "apply_segment dir seg =
     (if seg = S ''.'' then dir
      else if seg = S ''..'' then (if dir = [] then [] else butlast dir)
      else dir @ [seg])"

definition containing_dir :: "jsstring \<Rightarrow> jsstring list" where
  "containing_dir sourcePath = butlast (split_on (ch CHR ''/'') sourcePath)"

section \<open>Regular expressions\<close>

text \<open>
  The five regular expressions of \<^verbatim>\<open>src/utils.ts\<close> are written as terms of \<open>re\<close>
  and run by a backtracking matcher.  None of them carries the \<^verbatim>\<open>i\<close>, \<^verbatim>\<open>m\<close>,
  \<^verbatim>\<open>s\<close> or \<^verbatim>\<open>u\<close> flag, so matching is by code unit, \<^verbatim>\<open>^\<close> and \<^verbatim>\<open>$\<close> are the
  ends of the input, and \<^verbatim>\<open>\s\<close> is the ECMAScript white space and line terminator set.
\<close>

datatype cls = OneOf "jschar list" | NoneOf "jschar list" | WhiteSpace | AnyChar

definition is_space :: "jschar \<Rightarrow> bool" where
  "is_space c \<longleftrightarrow>
     c \<in> set [0x9, 0xA, 0xB, 0xC, 0xD, 0x20, 0xA0, 0x1680, 0x2028, 0x2029, 0x202F,
               0x205F, 0x3000, 0xFEFF]
     \<or> (0x2000 \<le> c \<and> c \<le> 0x200A)"

fun in_cls :: "cls \<Rightarrow> jschar \<Rightarrow> bool" where
  "in_cls (OneOf cs) c = (c \<in> set cs)"
| "in_cls (NoneOf cs) c = (c \<notin> set cs)"
| "in_cls WhiteSpace c = is_space c"
| "in_cls AnyChar c = True"

text \<open>
  \<open>Lit\<close> is a run of literal characters, \<open>Cls\<close> one character of a class
  (\<open>AnyChar\<close> is \<^verbatim>\<open>[\s\S]\<close>), \<open>Opt\<close> the greedy \<^verbatim>\<open>?\<close>, \<open>GStar\<close> the greedy
  \<^verbatim>\<open>*\<close>, \<open>LStar\<close> the lazy \<^verbatim>\<open>*?\<close>, \<open>Grp\<close> a capturing group, \<open>Bol\<close> and
  \<open>Eol\<close> the assertions \<^verbatim>\<open>^\<close> and \<^verbatim>\<open>$\<close>.  A non-capturing group is the term
  itself.
\<close>

datatype re =
    Lit jsstring
  | Cls cls
  | Seq re re
  | Alt re re
  | Opt re
  | GStar re
  | LStar re
  | Grp re
  | Bol
  | Eol

text \<open>The greedy \<^verbatim>\<open>+\<close>: one iteration, then the greedy star.\<close>

definition Plus :: "re \<Rightarrow> re" where
  "Plus r = Seq r (GStar r)"

fun cat :: "re list \<Rightarrow> re" where
  "cat [] = Lit []"
| "cat [r] = r"
| "cat (r # rs) = Seq r (cat rs)"

text \<open>
  A matcher state is the rest of the input and the captures closed so far, in the order
  the groups close (no group of the patterns below is nested or repeated).
  \<open>matches n r st\<close> lists the states \<open>r\<close> can end in when started in \<open>st\<close>, in the
  order the backtracking matcher of ECMAScript tries them; \<open>n\<close> is the length of the whole
  input, for \<^verbatim>\<open>^\<close>.  An iteration of \<^verbatim>\<open>?\<close>, \<^verbatim>\<open>*\<close> or \<^verbatim>\<open>*?\<close> that consumes
  nothing is dropped, as the RepeatMatcher of ECMAScript does.
\<close>

type_synonym mstate = "jsstring \<times> jsstring list"

function matches :: "nat \<Rightarrow> re \<Rightarrow> mstate \<Rightarrow> mstate list" where
  "matches n (Lit cs) st =
     (if take (length cs) (fst st) = cs then [(drop (length cs) (fst st), snd st)] else [])"
| "matches n (Cls k) st =
     (case fst st of
        [] \<Rightarrow> []
      | c # cs \<Rightarrow> if in_cls k c then [(cs, snd st)] else [])"
| "matches n (Seq a b) st = concat (map (matches n b) (matches n a st))"
| "matches n (Alt a b) st = matches n a st @ matches n b st"
| "matches n (Opt a) st =
     filter (\<lambda>st'. length (fst st') < length (fst st)) (matches n a st) @ [st]"
| "matches n (GStar a) st =
     concat (map (matches n (GStar a))
               (filter (\<lambda>st'. length (fst st') < length (fst st)) (matches n a st)))
     @ [st]"
| "matches n (LStar a) st =
     st # concat (map (matches n (LStar a))
               (filter (\<lambda>st'. length (fst st') < length (fst st)) (matches n a st)))"
| "matches n (Grp a) st =
     map (\<lambda>st'. (fst st', snd st' @ [take (length (fst st) - length (fst st')) (fst st)]))
       (matches n a st)"
| "matches n Bol st = (if length (fst st) = n then [st] else [])"
| "matches n Eol st = (if fst st = [] then [st] else [])"
  by pat_completeness auto
termination
  by (relation "inv_image (less_than <*lex*> less_than)
                  (\<lambda>(n, r, st). (size r, length (fst st)))")
     auto

declare matches.simps [simp del]

text \<open>One attempt of the pattern at the current position: the first success, if any.\<close>

definition exec_at :: "nat \<Rightarrow> re \<Rightarrow> jsstring \<Rightarrow> mstate option" where
  "exec_at n r s = (case matches n r (s, []) of [] \<Rightarrow> None | st # _ \<Rightarrow> Some st)"

text \<open>
  \<^verbatim>\<open>s.match(r)\<close> used as a condition, for \<open>r\<close> without the \<^verbatim>\<open>g\<close> flag: is there a
  position where \<open>r\<close> matches.
\<close>

fun test_from :: "nat \<Rightarrow> re \<Rightarrow> jsstring \<Rightarrow> bool" where
  "test_from n r [] = (exec_at n r [] \<noteq> None)"
| "test_from n r (c # cs) = (exec_at n r (c # cs) \<noteq> None \<or> test_from n r cs)"

definition re_test :: "re \<Rightarrow> jsstring \<Rightarrow> bool" where
  "re_test r s = test_from (length s) r s"

text \<open>
  \<^verbatim>\<open>s.replace(r, '')\<close> for \<open>r\<close> without the \<^verbatim>\<open>g\<close> flag: the leftmost match is cut
  out.
\<close>

fun remove_first_from :: "nat \<Rightarrow> re \<Rightarrow> jsstring \<Rightarrow> jsstring" where
  "remove_first_from n r [] = []"
| "remove_first_from n r (c # cs) =
     (case exec_at n r (c # cs) of
        Some st \<Rightarrow> fst st
      | None \<Rightarrow> c # remove_first_from n r cs)"

definition remove_first :: "re \<Rightarrow> jsstring \<Rightarrow> jsstring" where
  "remove_first r s = remove_first_from (length s) r s"

text \<open>
  \<^verbatim>\<open>s.replace(r, callback)\<close> for \<open>r\<close> with the \<^verbatim>\<open>g\<close> flag.  The callback receives
  the matched text and the captures.  After an empty match the search moves on by one
  code unit, which is copied.
\<close>

function replace_from ::
  "nat \<Rightarrow> re \<Rightarrow> (jsstring \<Rightarrow> jsstring list \<Rightarrow> jsstring) \<Rightarrow> jsstring \<Rightarrow> jsstring" where
  "replace_from n r f s =
     (case exec_at n r s of
        Some st \<Rightarrow>
          if length (fst st) < length s
          then f (take (length s - length (fst st)) s) (snd st) @ replace_from n r f (fst st)
          else f [] (snd st) @ (case s of [] \<Rightarrow> [] | c # cs \<Rightarrow> c # replace_from n r f cs)
      | None \<Rightarrow> (case s of [] \<Rightarrow> [] | c # cs \<Rightarrow> c # replace_from n r f cs))"
  by pat_completeness auto
termination
  by (relation "measure (\<lambda>(n, r, f, s). length s)") auto

declare replace_from.simps [simp del]

definition replace_all ::
  "re \<Rightarrow> (jsstring \<Rightarrow> jsstring list \<Rightarrow> jsstring) \<Rightarrow> jsstring \<Rightarrow> jsstring" where
  "replace_all r f s = replace_from (length s) r f s"

section \<open>Replacing a string by a replacement template\<close>

text \<open>
  \<^verbatim>\<open>s.replace(pattern, replacement)\<close> with two strings replaces the first occurrence
  of \<open>pattern\<close>, and reads \<open>replacement\<close> as a template (GetSubstitution of
  ECMAScript): \<^verbatim>\<open>$$\<close> is a dollar sign, \<^verbatim>\<open>$&\<close> the matched text, \<^verbatim>\<open>$`\<close> the text
  before the match and \<^verbatim>\<open>$'\<close> the text after it.  A string pattern has no captures, so
  \<^verbatim>\<open>$1\<close> and \<^verbatim>\<open>$<\<close> stay as they are.
\<close>

fun get_substitution :: "jsstring \<Rightarrow> jsstring \<Rightarrow> jsstring \<Rightarrow> jsstring \<Rightarrow> jsstring" where
  "get_substitution matched preceding following [] = []"
| "get_substitution matched preceding following [c] = [c]"
| "get_substitution matched preceding following (c # d # t) =
     (if c = ch CHR ''$'' then
        (if d = ch CHR ''$'' then ch CHR ''$'' # get_substitution matched preceding following t
         else if d = ch CHR ''&'' then matched @ get_substitution matched preceding following t
         else if d = ch CHR 0x60 then preceding @ get_substitution matched preceding following t
         else if d = ch CHR 0x27 then following @ get_substitution matched preceding following t
         else c # get_substitution matched preceding following (d # t))
      else c # get_substitution matched preceding following (d # t))"

definition replace_string :: "jsstring \<Rightarrow> jsstring \<Rightarrow> jsstring \<Rightarrow> jsstring" where
  "replace_string s pattern replacement =
     (case index_of pattern s of
        None \<Rightarrow> s
      | Some i \<Rightarrow>
          (let preceding = take i s; following = drop (i + length pattern) s
           in preceding @ get_substitution pattern preceding following replacement @ following))"

section \<open>Objects\<close>

text \<open>
  A plain object is the list of its own properties in creation order, keys distinct.
  \<^verbatim>\<open>Object.entries\<close>, \<^verbatim>\<open>JSON.stringify\<close> and the spread \<^verbatim>\<open>{...o}\<close> visit the
  properties in the order of OrdinaryOwnPropertyKeys: the array indices (canonical
  numeric strings up to \<open>2^32 - 2\<close>) in ascending order first, then the other keys in
  creation order.
\<close>

type_synonym 'v obj = "(jsstring \<times> 'v) list"

definition is_digit :: "jschar \<Rightarrow> bool" where
  "is_digit c \<longleftrightarrow> 0x30 \<le> c \<and> c \<le> 0x39"

definition digits_value :: "jsstring \<Rightarrow> nat" where
  "digits_value k = foldl (\<lambda>a c. 10 * a + (unat c - 48)) 0 k"

definition array_index :: "jsstring \<Rightarrow> nat option" where
  "array_index k =
     (case k of
        [] \<Rightarrow> None
      | c # cs \<Rightarrow>
          if list_all is_digit k \<and> (cs = [] \<or> c \<noteq> ch CHR ''0'') \<and> digits_value k \<le> 4294967294
          then Some (digits_value k) else None)"

definition index_rank :: "jsstring \<times> 'v \<Rightarrow> nat" where
  "index_rank kv = (case array_index (fst kv) of Some i \<Rightarrow> i | None \<Rightarrow> 0)"

definition own_entries :: "'v obj \<Rightarrow> (jsstring \<times> 'v) list" where
  "own_entries ob =
     sort_key index_rank (filter (\<lambda>kv. array_index (fst kv) \<noteq> None) ob)
     @ filter (\<lambda>kv. array_index (fst kv) = None) ob"

definition obj_get :: "'v obj \<Rightarrow> jsstring \<Rightarrow> 'v option" where
  "obj_get ob k = map_of ob k"

text \<open>
  Defining a property (an object literal with a computed key): the value of an existing
  key is replaced where it stands, a new key goes to the end.
\<close>

fun obj_put :: "'v obj \<Rightarrow> jsstring \<Rightarrow> 'v \<Rightarrow> 'v obj" where
  "obj_put [] k v = [(k, v)]"
| "obj_put (p # ps) k v = (if fst p = k then (k, v) # ps else p # obj_put ps k v)"

text \<open>
  The assignment \<^verbatim>\<open>ob[k] = v\<close> on an object whose prototype is \<^verbatim>\<open>Object.prototype\<close>
  and whose values are strings.  For the key \<^verbatim>\<open>__proto__\<close>, when it is not an own
  property, the assignment runs the inherited setter, which ignores a string: no
  property is created.
\<close>

definition obj_assign :: "jsstring obj \<Rightarrow> jsstring \<Rightarrow> jsstring \<Rightarrow> jsstring obj" where
  "obj_assign ob k v =
     (if k = S ''__proto__'' \<and> obj_get ob k = None then ob else obj_put ob k v)"

section \<open>encodeURIComponent and JSON.stringify\<close>

datatype error = URIError

definition is_lead :: "jschar \<Rightarrow> bool" where
  "is_lead c \<longleftrightarrow> 0xD800 \<le> c \<and> c \<le> 0xDBFF"

definition is_trail :: "jschar \<Rightarrow> bool" where
  "is_trail c \<longleftrightarrow> 0xDC00 \<le> c \<and> c \<le> 0xDFFF"

definition is_unreserved :: "jschar \<Rightarrow> bool" where
  \<open>is_unreserved c \<longleftrightarrow>
     c \<in> set (S ''ABCDEFGHIJKLMNOPQRSTUVWXYZabcdefghijklmnopqrstuvwxyz0123456789-_.!~*\'()'')\<close>

definition hex_upper :: "nat \<Rightarrow> jschar" where
  "hex_upper d = (if d < 10 then of_nat (48 + d) else of_nat (55 + d))"

definition hex_lower :: "nat \<Rightarrow> jschar" where
  "hex_lower d = (if d < 10 then of_nat (48 + d) else of_nat (87 + d))"

definition utf8 :: "nat \<Rightarrow> nat list" where
  "utf8 cp =
     (if cp < 0x80 then [cp]
      else if cp < 0x800 then [0xC0 + cp div 64, 0x80 + cp mod 64]
      else if cp < 0x10000 then
        [0xE0 + cp div 4096, 0x80 + (cp div 64) mod 64, 0x80 + cp mod 64]
      else
        [0xF0 + cp div 262144, 0x80 + (cp div 4096) mod 64, 0x80 + (cp div 64) mod 64,
         0x80 + cp mod 64])"

definition percent :: "nat \<Rightarrow> jsstring" where
  "percent b = [ch CHR ''%'', hex_upper (b div 16), hex_upper (b mod 16)]"

definition escape_code_point :: "nat \<Rightarrow> jsstring" where
  "escape_code_point cp = concat (map percent (utf8 cp))"

definition surrogate_pair :: "jschar \<Rightarrow> jschar \<Rightarrow> nat" where
  "surrogate_pair hi lo = 0x10000 + (unat hi - 0xD800) * 0x400 + (unat lo - 0xDC00)"

text \<open>
  \<^verbatim>\<open>encodeURIComponent\<close> throws a \<^verbatim>\<open>URIError\<close> at a surrogate code unit that is
  not half of a pair.
\<close>

fun encodeURIComponent :: "jsstring \<Rightarrow> error + jsstring" where
  "encodeURIComponent [] = Inr []"
| "encodeURIComponent (c # cs) =
     (if is_unreserved c then map_sum id (Cons c) (encodeURIComponent cs)
      else if is_trail c then Inl URIError
      else if is_lead c then
        (case cs of
           [] \<Rightarrow> Inl URIError
         | d # ds \<Rightarrow>
             if is_trail d
             then map_sum id (append (escape_code_point (surrogate_pair c d)))
                    (encodeURIComponent ds)
             else Inl URIError)
      else map_sum id (append (escape_code_point (unat c))) (encodeURIComponent cs))"

definition unicode_escape :: "jschar \<Rightarrow> jsstring" where
  "unicode_escape c =
     [0x5C, ch CHR ''u'', hex_lower (unat c div 4096 mod 16), hex_lower (unat c div 256 mod 16),
      hex_lower (unat c div 16 mod 16), hex_lower (unat c mod 16)]"

text \<open>QuoteJSONString, without the enclosing quotation marks.\<close>

fun json_escape :: "jsstring \<Rightarrow> jsstring" where
  "json_escape [] = []"
| "json_escape (c # cs) =
     (if c = 0x8 then [0x5C, ch CHR ''b''] @ json_escape cs
      else if c = 0x9 then [0x5C, ch CHR ''t''] @ json_escape cs
      else if c = 0xA then [0x5C, ch CHR ''n''] @ json_escape cs
      else if c = 0xC then [0x5C, ch CHR ''f''] @ json_escape cs
      else if c = 0xD then [0x5C, ch CHR ''r''] @ json_escape cs
      else if c = 0x22 then [0x5C, 0x22] @ json_escape cs
      else if c = 0x5C then [0x5C, 0x5C] @ json_escape cs
      else if c < 0x20 then unicode_escape c @ json_escape cs
      else if is_lead c then
        (case cs of
           [] \<Rightarrow> unicode_escape c
         | d # ds \<Rightarrow>
             if is_trail d then c # d # json_escape ds
             else unicode_escape c @ json_escape cs)
      else if is_trail c then unicode_escape c @ json_escape cs
      else c # json_escape cs)"

definition json_quote :: "jsstring \<Rightarrow> jsstring" where
  "json_quote s = [0x22] @ json_escape s @ [0x22]"

text \<open>
  \<^verbatim>\<open>JSON.stringify(ob, null, 2)\<close> for an object whose values are strings.
\<close>

definition json_stringify :: "jsstring obj \<Rightarrow> jsstring" where
  "json_stringify ob =
     (let members = map (\<lambda>kv. json_quote (fst kv) @ S '': '' @ json_quote (snd kv)) (own_entries ob)
      in if members = [] then S ''{}''
         else S ''{'' @ [ch CHR 0x0A] @ S ''  '' @ join (S '','' @ [ch CHR 0x0A] @ S ''  '') members
              @ [ch CHR 0x0A] @ S ''}'')"

section \<open>The virtual file system and the preview builder\<close>

text \<open>
  \<^verbatim>\<open>ProjectFile\<close> and \<^verbatim>\<open>FileSystem\<close> of \<^verbatim>\<open>types.ts\<close>.  \<open>name\<close> and \<open>language\<close>
  are optional because \<^verbatim>\<open>handleFileChange\<close> builds its record by a spread, which
  leaves them out when the selected path has no entry.
\<close>

record ProjectFile =
  name :: "jsstring option"
  content :: jsstring
  language :: "jsstring option"

type_synonym FileSystem = "ProjectFile obj"

text \<open>
  The text of the shell, \<^verbatim>\<open>INITIAL_FILES['index.html'].content\<close>: its lines, joined
  by line feeds.
\<close>

definition shell_lines :: "jsstring list" where
  \<open>shell_lines =
     [S ''<!DOCTYPE html>'',
      S ''<html lang="en">'',
      S ''<head>'',
      S ''    <meta charset="UTF-8">'',
      S ''    <meta name="viewport" content="width=device-width, initial-scale=1.0, maximum-scale=1.0, user-scalable=no">'',
      S ''    <title>EduSpark Game Shell</title>'',
      S ''    <style>'',
      S ''        /* GOLDEN SHELL STYLES - DO NOT EDIT */'',
      S ''        body, html { '',
      S ''            margin: 0; padding: 0; width: 100%; height: 100%; '',
      S ''            background: #1a1a1a; color: #fff; '',
      S ''            overflow: hidden; font-family: \'Inter\', sans-serif;'',
      S ''            display: flex; align-items: center; justify-content: center;'',
      S ''        }'',
      S ''        '',
      S ''        /* The Scalable Stage Container */'',
      S ''        #game-container {'',
      S ''            position: relative;'',
      S ''            width: 800px;'',
      S ''            height: 600px;'',
      S ''            background: #000;'',
      S ''            box-shadow: 0 0 50px rgba(0,0,0,0.5);'',
      S ''            overflow: hidden;'',
      S ''        }'',
      [],
      S ''        /* The Mount Point for Aether */'',
      S ''        #game-stage {'',
      S ''            width: 100%;'',
      S ''            height: 100%;'',
      S ''            position: relative;'',
      S ''        }'',
      [],
      S ''        /* Scale logic */'',
      S ''        @media (max-width: 840px), (max-height: 640px) {'',
      S ''            #game-container {'',
      S ''                transform-origin: center center;'',
      S ''                transform: scale(min(calc(100vw / 800), calc(100vh / 600)));'',
      S ''            }'',
      S ''        }'',
      S ''    </style>'',
      S ''    <script>'',
      S ''        // BRIDGE API MOCK'',
      S ''        window.gameAPI = {'',
      S ''            submitFinalScore: function(data) {'',
      S ''                console.log("'' @ [0xD83C, 0xDFC6] @ S '' [BRIDGE] Game Completed:", data);'',
      S ''                const banner = document.createElement(\'div\');'',
      S ''                banner.style.cssText = \'position:absolute;top:50%;left:50%;transform:translate(-50%, -50%);background:#10b981;color:white;padding:20px;border-radius:12px;font-weight:bold;text-align:center;box-shadow:0 10px 25px rgba(0,0,0,0.5);z-index:9999;\';'',
      S ''                banner.innerHTML = \'<h1>Great Job!</h1><p>Score Submitted: \' + (data.score.raw || 0) + \'</p>\';'',
      S ''                document.getElementById(\'game-stage\').appendChild(banner);'',
      S ''            }'',
      S ''        };'',
      S ''    </script>'',
      S ''</head>'',
      S ''<body>'',
      S ''    <div id="game-container">'',
      S ''        <div id="game-stage">'',
      S ''            <!-- Aether mounts the app here -->'',
      S ''            <div style="height:100%; display:flex; flex-direction:column; align-items:center; justify-content:center; color:#666;">'',
      S ''                <h2>Waiting for Aether...</h2>'',
      S ''                <p>Game content will load here.</p>'',
      S ''            </div>'',
      S ''        </div>'',
      S ''    </div>'',
      S ''    '',
      S ''    <!-- Main Entry Point -->'',
      S ''    <script type="module" src="./src/main.js"></script>'',
      S ''</body>'',
      S ''</html>'']\<close>

definition INITIAL_index_html :: jsstring where
  "INITIAL_index_html = join [ch CHR 0x0A] shell_lines"

definition INITIAL_FILES :: FileSystem where
  "INITIAL_FILES =
     [(S ''index.html'',
       \<lparr>name = Some (S ''index.html''), content = INITIAL_index_html,
        language = Some (S ''html'')\<rparr>)]"

text \<open>The regular expressions of \<^verbatim>\<open>buildPreviewContent\<close>.\<close>

definition quote_cls :: cls where
  "quote_cls = OneOf [ch CHR 0x27, ch CHR 0x22]"

definition not_quote_cls :: cls where
  "not_quote_cls = NoneOf [ch CHR 0x27, ch CHR 0x22]"

text \<open>\<^verbatim>\<open>/\.(js|jsx|ts|tsx)$/\<close>\<close>

definition source_ext_re :: re where
  "source_ext_re =
     cat [Lit (S ''.''),
          Grp (Alt (Lit (S ''js'')) (Alt (Lit (S ''jsx'')) (Alt (Lit (S ''ts'')) (Lit (S ''tsx''))))),
          Eol]"

text \<open>\<^verbatim>\<open>/((?:import|export)\s+(?:[\s\S]*?from\s+)?['"])([\.\/][^'"]+)(['"])/g\<close>\<close>

definition static_import_re :: re where
  "static_import_re =
     cat [Grp (cat [Alt (Lit (S ''import'')) (Lit (S ''export'')),
                    Plus (Cls WhiteSpace),
                    Opt (cat [LStar (Cls AnyChar), Lit (S ''from''), Plus (Cls WhiteSpace)]),
                    Cls quote_cls]),
          Grp (cat [Cls (OneOf (S ''./'')), Plus (Cls not_quote_cls)]),
          Grp (Cls quote_cls)]"

text \<open>\<^verbatim>\<open>/(import\(['"])([\.\/][^'"]+)(['"]\))/g\<close>\<close>

definition dynamic_import_re :: re where
  "dynamic_import_re =
     cat [Grp (cat [Lit (S ''import(''), Cls quote_cls]),
          Grp (cat [Cls (OneOf (S ''./'')), Plus (Cls not_quote_cls)]),
          Grp (cat [Cls quote_cls, Lit (S '')'')])]"

text \<open>\<^verbatim>\<open>/^(\.\/|\/)/\<close>\<close>

definition leading_slash_re :: re where
  "leading_slash_re = cat [Bol, Grp (Alt (Lit (S ''./'')) (Lit (S ''/'')))]"

text \<open>\<^verbatim>\<open>/<script\s+type=["']module["']\s+src=["']([^"']+)["']><\/script>/g\<close>\<close>

definition entry_script_re :: re where
  "entry_script_re =
     cat [Lit (S ''<script''), Plus (Cls WhiteSpace), Lit (S ''type=''), Cls quote_cls,
          Lit (S ''module''), Cls quote_cls, Plus (Cls WhiteSpace), Lit (S ''src=''),
          Cls quote_cls, Grp (Plus (Cls not_quote_cls)), Cls quote_cls,
          Lit (S ''></script>'')]"

definition is_source_path :: "jsstring \<Rightarrow> bool" where
  "is_source_path path = re_test source_ext_re path"

text \<open>
  The callback of both import rewrites, \<^verbatim>\<open>(match, p1, p2, p3) => `${p1}${resolved}${p3}`\<close>.
  Both patterns have exactly three groups.
\<close>

definition rewrite_specifier :: "jsstring \<Rightarrow> jsstring \<Rightarrow> jsstring list \<Rightarrow> jsstring" where
  "rewrite_specifier path whole caps =
     (case caps of
        [p1, p2, p3] \<Rightarrow> p1 @ resolveModuleSpecifier path p2 @ p3
      | _ \<Rightarrow> whole)"

definition rewrite_imports :: "jsstring \<Rightarrow> jsstring \<Rightarrow> jsstring" where
  "rewrite_imports path source =
     replace_all dynamic_import_re (rewrite_specifier path)
       (replace_all static_import_re (rewrite_specifier path) source)"

text \<open>The first \<^verbatim>\<open>forEach\<close> (lines 62-79): \<^verbatim>\<open>processedFiles\<close>.\<close>

definition process_file :: "jsstring \<Rightarrow> ProjectFile \<Rightarrow> jsstring" where
  "process_file path file =
     (if is_source_path path then rewrite_imports path (content file) else content file)"

definition processFiles :: "FileSystem \<Rightarrow> jsstring obj" where
  "processFiles vfs =
     foldl (\<lambda>processedFiles pf. obj_assign processedFiles (fst pf) (process_file (fst pf) (snd pf)))
       [] (own_entries vfs)"

text \<open>The import map (lines 82-109): the fixed registry, then the aliases of each module.\<close>

definition registry :: "jsstring obj" where
  "registry =
     [(S ''preact'', S ''https://esm.sh/preact@10.19.6''),
      (S ''preact/hooks'', S ''https://esm.sh/preact@10.19.6/hooks''),
      (S ''htm'', S ''https://esm.sh/htm@3.1.1''),
      (S ''canvas-confetti'', S ''https://esm.sh/canvas-confetti@1.9.2''),
      (S ''gsap'', S ''https://esm.sh/gsap@3.12.5'')]"

definition data_uri :: "jsstring \<Rightarrow> error + jsstring" where
  "data_uri body =
     map_sum id (append (S ''data:'' @ S ''text/javascript'' @ S '';charset=utf-8,''))
       (encodeURIComponent body)"

definition clean_path :: "jsstring \<Rightarrow> jsstring" where
  "clean_path path = remove_first leading_slash_re path"

definition strip_ext :: "jsstring \<Rightarrow> jsstring" where
  "strip_ext cleanPath = remove_first source_ext_re cleanPath"

definition register_aliases :: "jsstring obj \<Rightarrow> jsstring \<Rightarrow> jsstring \<Rightarrow> jsstring obj" where
  "register_aliases imports path dataUri =
     (let cleanPath = clean_path path;
          imports1 = obj_assign imports cleanPath dataUri;
          imports2 = obj_assign imports1 (S ''./'' @ cleanPath) dataUri;
          imports3 = obj_assign imports2 (S ''/'' @ cleanPath) dataUri;
          stripped = strip_ext cleanPath
      in if stripped \<noteq> cleanPath
         then obj_assign (obj_assign (obj_assign imports3 stripped dataUri)
                (S ''./'' @ stripped) dataUri) (S ''/'' @ stripped) dataUri
         else imports3)"

text \<open>The keys that \<open>register_aliases\<close> assigns for a path, in the order it assigns them.\<close>

definition aliases :: "jsstring \<Rightarrow> jsstring list" where
  "aliases path =
     (let cleanPath = clean_path path; stripped = strip_ext cleanPath
      in [cleanPath, S ''./'' @ cleanPath, S ''/'' @ cleanPath,
          stripped, S ''./'' @ stripped, S ''/'' @ stripped])"

definition import_step :: "jsstring obj \<Rightarrow> jsstring \<times> jsstring \<Rightarrow> error + jsstring obj" where
  "import_step imports pc =
     (if fst pc = S ''index.html'' \<or> endsWith (fst pc) (S ''.css'') then Inr imports
      else if is_source_path (fst pc) then
        (case data_uri (snd pc) of
           Inl e \<Rightarrow> Inl e
         | Inr dataUri \<Rightarrow> Inr (register_aliases imports (fst pc) dataUri))
      else Inr imports)"

fun import_loop :: "jsstring obj \<Rightarrow> (jsstring \<times> jsstring) list \<Rightarrow> error + jsstring obj" where
  "import_loop imports [] = Inr imports"
| "import_loop imports (pc # rest) =
     (case import_step imports pc of
        Inl e \<Rightarrow> Inl e
      | Inr imports' \<Rightarrow> import_loop imports' rest)"

definition synthesize_imports :: "FileSystem \<Rightarrow> error + jsstring obj" where
  "synthesize_imports vfs = import_loop registry (own_entries (processFiles vfs))"

definition importMapScript :: "jsstring obj \<Rightarrow> jsstring" where
  \<open>importMapScript imports =
     join [ch CHR 0x0A]
       [[],
        S ''    <script type="importmap">'',
        S ''      {'',
        S ''        "imports": '']
     @ json_stringify imports
     @ join [ch CHR 0x0A]
       [[],
        S ''      }'',
        S ''    </script>'',
        S ''  '']\<close>

text \<open>The style block (lines 119-125).\<close>

definition cssContent :: "FileSystem \<Rightarrow> jsstring" where
  "cssContent vfs =
     foldl (\<lambda>css pf.
              if endsWith (fst pf) (S ''.css'')
              then css @ [ch CHR 0x0A] @ S ''/* '' @ fst pf @ S '' */'' @ [ch CHR 0x0A] @ content (snd pf)
                   @ [ch CHR 0x0A]
              else css)
       [] (own_entries vfs)"

definition styleTag :: "FileSystem \<Rightarrow> jsstring" where
  "styleTag vfs =
     (if cssContent vfs \<noteq> [] then S ''<style>'' @ cssContent vfs @ S ''</style>'' else [])"

text \<open>The entry script (lines 128-134).\<close>

definition inline_entry :: "jsstring \<Rightarrow> jsstring list \<Rightarrow> jsstring" where
  \<open>inline_entry whole caps =
     (case caps of
        [src] \<Rightarrow>
          S ''<script type="module">import "'' @ resolveModuleSpecifier (S ''index.html'') src
          @ S ''"</script>''
      | _ \<Rightarrow> whole)\<close>

definition inline_entry_scripts :: "jsstring \<Rightarrow> jsstring" where
  "inline_entry_scripts indexHtml = replace_all entry_script_re inline_entry indexHtml"

text \<open>The injection after \<^verbatim>\<open><head>\<close> (lines 136-140).\<close>

definition inject_head :: "jsstring \<Rightarrow> jsstring \<Rightarrow> jsstring \<Rightarrow> jsstring" where
  "inject_head indexHtml importMap style =
     (if str_includes indexHtml (S ''<head>'')
      then replace_string indexHtml (S ''<head>'') (S ''<head>'' @ importMap @ style)
      else importMap @ style @ indexHtml)"

definition errorScript :: jsstring where
  \<open>errorScript = join [ch CHR 0x0A]
     [[],
      S ''    <script>'',
      S ''      window.onerror = function(msg, url, line, col, error) {'',
      S ''        console.error(\'Runtime Error:\', msg, '' @ [ch CHR 0x27] @ [ch CHR 0x5C] @ S ''nLine:\', line, '' @ [ch CHR 0x27] @ [ch CHR 0x5C] @ S ''nFile:\', url);'',
      S ''        const banner = document.createElement(\'div\');'',
      S ''        banner.style.cssText = \'position:fixed;top:0;left:0;right:0;background:rgba(220,38,38,0.9);color:white;padding:8px;font-family:sans-serif;font-size:12px;z-index:9999;pointer-events:none;\';'',
      S ''        banner.textContent = \'Runtime Error: \' + msg;'',
      S ''        document.body.appendChild(banner);'',
      S ''      };'',
      S ''    </script>'',
      S ''  '']\<close>

text \<open>The injection after \<^verbatim>\<open><body>\<close> (lines 155-159).\<close>

definition inject_body :: "jsstring \<Rightarrow> jsstring" where
  "inject_body indexHtml =
     (if str_includes indexHtml (S ''<body>'')
      then replace_string indexHtml (S ''<body>'') (S ''<body>'' @ errorScript)
      else indexHtml @ errorScript)"

text \<open>
  The entry document: \<^verbatim>\<open>files['index.html']?.content || ''\<close>, and the shell when that
  is empty.
\<close>

definition entry_document :: "FileSystem \<Rightarrow> jsstring" where
  "entry_document vfs =
     (let indexHtml = (case obj_get vfs (S ''index.html'') of None \<Rightarrow> [] | Some f \<Rightarrow> content f)
      in if indexHtml = [] then INITIAL_index_html else indexHtml)"

definition buildPreviewContent :: "FileSystem \<Rightarrow> error + jsstring" where
  "buildPreviewContent vfs =
     (let indexHtml = entry_document vfs
      in case synthesize_imports vfs of
           Inl e \<Rightarrow> Inl e
         | Inr imports \<Rightarrow>
             Inr (inject_body
                    (inject_head (inline_entry_scripts indexHtml) (importMapScript imports)
                       (styleTag vfs))))"

section \<open>The writers of the virtual file system\<close>

text \<open>\<^verbatim>\<open>getLanguageFromFilename\<close>: the switch on the text after the last dot.\<close>

definition getLanguageFromFilename :: "jsstring \<Rightarrow> jsstring" where
  "getLanguageFromFilename filename =
     (case rev (split_on (ch CHR ''.'') filename) of
        [] \<Rightarrow> S ''plaintext''
      | ext # _ \<Rightarrow>
          if ext = S ''js'' then S ''javascript''
          else if ext = S ''jsx'' then S ''javascript''
          else if ext = S ''ts'' then S ''typescript''
          else if ext = S ''tsx'' then S ''typescript''
          else if ext = S ''html'' then S ''html''
          else if ext = S ''css'' then S ''css''
          else if ext = S ''json'' then S ''json''
          else S ''plaintext'')"

text \<open>
  The part of the component state of \<^verbatim>\<open>App\<close> that the two writers touch.
\<close>

record app_state =
  files :: FileSystem
  selectedFile :: "jsstring option"

text \<open>
  The \<^verbatim>\<open>create_file\<close> branch of \<^verbatim>\<open>executeTool\<close> (App.tsx, lines 160-175): the new
  state and the string returned to the caller.
\<close>

definition create_file :: "app_state \<Rightarrow> jsstring \<Rightarrow> jsstring \<Rightarrow> app_state \<times> jsstring" where
  \<open>create_file st path body =
     (if path = S ''index.html''
      then (st, S ''Error: index.html is READ-ONLY. You cannot modify the Golden Shell.'')
      else
        (st\<lparr>files :=
               obj_put (own_entries (files st)) path
                 \<lparr>name = Some path, content = body,
                  language = Some (getLanguageFromFilename path)\<rparr>,
            selectedFile := Some path\<rparr>,
         S ''File '' @ [ch CHR 0x27] @ path @ S ''\' created successfully.''))\<close>

text \<open>
  \<^verbatim>\<open>handleFileChange\<close> (App.tsx, lines 310-320).  The function returns nothing
  (\<open>None\<close> stands for \<^verbatim>\<open>undefined\<close>); the guard \<^verbatim>\<open>selectedFile && ...\<close> is false for
  \<^verbatim>\<open>null\<close> and for the empty string.
\<close>

definition handleFileChange :: "app_state \<Rightarrow> jsstring \<Rightarrow> app_state \<times> jsstring option" where
  "handleFileChange st newContent =
     (case selectedFile st of
        None \<Rightarrow> (st, None)
      | Some sel \<Rightarrow>
          if sel \<noteq> [] \<and> sel \<noteq> S ''index.html''
          then
            (st\<lparr>files :=
                   obj_put (own_entries (files st)) sel
                     (case obj_get (files st) sel of
                        Some f \<Rightarrow> f\<lparr>content := newContent\<rparr>
                      | None \<Rightarrow> \<lparr>name = None, content = newContent, language = None\<rparr>)\<rparr>,
             None)
          else (st, None))"

section \<open>Scenarios\<close>

text \<open>
  The initial file system with one more file, whose content is the single code unit
  \<^verbatim>\<open>\uD800\<close>, a leading surrogate with no trailing one.
\<close>

definition lone_surrogate_vfs :: FileSystem where
  "lone_surrogate_vfs =
     INITIAL_FILES @
     [(S ''src/main.js'',
       \<lparr>name = Some (S ''src/main.js''), content = [0xD800], language = Some (S ''javascript'')\<rparr>)]"

text \<open>
  The scenario of section 8 of the specification: the initial file system and
  \<^verbatim>\<open>src/main.js\<close>, with the import map the build computes for it.
\<close>

definition scenario_source :: jsstring where
  \<open>scenario_source = S ''import {h} from \'preact\'; console.log(\'hi\')''\<close>

definition scenario_vfs :: FileSystem where
  "scenario_vfs =
     INITIAL_FILES @
     [(S ''src/main.js'',
       \<lparr>name = Some (S ''src/main.js''), content = scenario_source,
        language = Some (S ''javascript'')\<rparr>)]"

definition scenario_uri :: jsstring where
  \<open>scenario_uri =
     S ''data:text/javascript;charset=utf-8,import%20%7Bh%7D%20from%20\'preact\'%3B%20console.log(\'hi\')''\<close>

definition scenario_imports :: "jsstring obj" where
  "scenario_imports =
     registry @
     [(S ''src/main.js'', scenario_uri), (S ''./src/main.js'', scenario_uri),
      (S ''/src/main.js'', scenario_uri), (S ''src/main'', scenario_uri),
      (S ''./src/main'', scenario_uri), (S ''/src/main'', scenario_uri)]"

text \<open>
  Two modules whose paths differ in the extension only, and the import map the build
  computes for them.
\<close>

definition collision_vfs :: FileSystem where
  "collision_vfs =
     INITIAL_FILES @
     [(S ''src/main.js'',
       \<lparr>name = Some (S ''src/main.js''), content = S ''a()'', language = Some (S ''javascript'')\<rparr>),
      (S ''src/main.ts'',
       \<lparr>name = Some (S ''src/main.ts''), content = S ''b()'', language = Some (S ''typescript'')\<rparr>)]"

definition collision_imports :: "jsstring obj" where
  "collision_imports =
     registry @
     [(S ''src/main.js'', S ''data:text/javascript;charset=utf-8,a()''),
      (S ''./src/main.js'', S ''data:text/javascript;charset=utf-8,a()''),
      (S ''/src/main.js'', S ''data:text/javascript;charset=utf-8,a()''),
      (S ''src/main'', S ''data:text/javascript;charset=utf-8,b()''),
      (S ''./src/main'', S ''data:text/javascript;charset=utf-8,b()''),
      (S ''/src/main'', S ''data:text/javascript;charset=utf-8,b()''),
      (S ''src/main.ts'', S ''data:text/javascript;charset=utf-8,b()''),
      (S ''./src/main.ts'', S ''data:text/javascript;charset=utf-8,b()''),
      (S ''/src/main.ts'', S ''data:text/javascript;charset=utf-8,b()'')]"

text \<open>
  The parts of the shell around its \<^verbatim>\<open><head>\<close> tag (line 3), its \<^verbatim>\<open><body>\<close> tag
  (line 54) and its entry script (line 66, after four spaces).
\<close>

definition shell_A :: jsstring where
  "shell_A = join [ch CHR 0x0A] (take 2 shell_lines) @ [ch CHR 0x0A]"

definition shell_B :: jsstring where
  "shell_B = [ch CHR 0x0A] @ join [ch CHR 0x0A] (take 50 (drop 3 shell_lines)) @ [ch CHR 0x0A]"

definition shell_C :: jsstring where
  "shell_C = [ch CHR 0x0A] @ join [ch CHR 0x0A] (take 11 (drop 54 shell_lines)) @ [ch CHR 0x0A]
               @ S ''    ''"

definition shell_D :: jsstring where
  "shell_D = [ch CHR 0x0A] @ join [ch CHR 0x0A] (drop 66 shell_lines)"

definition entry_tag :: jsstring where
  \<open>entry_tag = S ''<script type="module" src="./src/main.js"></script>''\<close>

definition inline_tag :: jsstring where
  \<open>inline_tag = S ''<script type="module">import "src/main.js"</script>''\<close>

text \<open>
  The initial file system with a style sheet that writes a dollar sign in quotation
  marks, \<^verbatim>\<open>.price::before{content:'$'}\<close>.
\<close>

definition dollar_vfs :: FileSystem where
  \<open>dollar_vfs =
     INITIAL_FILES @
     [(S ''style.css'',
       \<lparr>name = Some (S ''style.css''), content = S ''.price::before{content:\'$\'}'',
        language = Some (S ''css'')\<rparr>)]\<close>

text \<open>The style block of \<open>dollar_vfs\<close> before and after the two characters \<^verbatim>\<open>$'\<close>.\<close>

definition dollar_style_before :: jsstring where
  "dollar_style_before =
     S ''<style>'' @ [ch CHR 0x0A] @ S ''/* style.css */'' @ [ch CHR 0x0A]
     @ S ''.price::before{content:'' @ [ch CHR 0x27]"

definition dollar_style_after :: jsstring where
  "dollar_style_after = S ''}'' @ [ch CHR 0x0A] @ S ''</style>''"

text \<open>
  The initial file system with a plain-text file at the path \<^verbatim>\<open>__proto__\<close>, as
  \<^verbatim>\<open>create_file\<close> stores it.
\<close>

definition proto_vfs :: FileSystem where
  "proto_vfs =
     INITIAL_FILES @
     [(S ''__proto__'',
       \<lparr>name = Some (S ''__proto__''), content = S ''x'', language = Some (S ''plaintext'')\<rparr>)]"

section \<open>Basic facts about strings\<close>

lemma unat_ch: "unat (ch c) = of_char c"
proof -
  have "(of_char c :: nat) < 256" by simp
  then have lt: "(of_char c :: nat) < 2 ^ 16" by (rule less_trans) simp
  have "(of_char c :: 16 word) = of_nat (of_char c)" by (simp only: of_nat_of_char)
  then show ?thesis using lt by (simp add: ch_def unat_of_nat del: of_nat_of_char)
qed

lemma ch_eq_iff [simp]: "ch a = ch b \<longleftrightarrow> a = b"
proof
  assume "ch a = ch b"
  then have "unat (ch a) = unat (ch b)" by simp
  then have "(of_char a :: nat) = of_char b" by (simp only: unat_ch)
  then show "a = b" by simp
qed simp

lemma resolve_loop_foldl: "resolve_loop dir parts = foldl apply_segment dir parts"
  by (induction parts arbitrary: dir) (simp_all add: apply_segment_def)

section \<open>The specifier resolver\<close>

lemma resolve_bare:
  "\<not> startsWith specifier (S ''.'') \<Longrightarrow> \<not> startsWith specifier (S ''/'')
   \<Longrightarrow> resolveModuleSpecifier sourcePath specifier = specifier"
  by (simp add: resolveModuleSpecifier_def)

lemma resolve_rooted:
  "startsWith specifier (S ''/'') \<Longrightarrow> resolveModuleSpecifier sourcePath specifier = drop 1 specifier"
  by (simp add: resolveModuleSpecifier_def)

lemma resolve_relative:
  assumes "startsWith specifier (S ''.'')"
  shows "resolveModuleSpecifier sourcePath specifier =
           join (S ''/'') (foldl apply_segment (containing_dir sourcePath)
                            (split_on (ch CHR ''/'') specifier))"
proof -
  obtain t where "specifier = ch CHR ''.'' # t"
    using assms by (cases specifier) (auto simp: startsWith_def S_def)
  then have "\<not> startsWith specifier (S ''/'')"
    by (simp add: startsWith_def S_def)
  with assms show ?thesis
    by (simp add: resolveModuleSpecifier_def resolve_loop_foldl containing_dir_def)
qed

text \<open>
  C1.  The resolver returns a bare specifier unchanged, strips the leading slash of a
  specifier that begins with a slash, and resolves any other specifier against the
  directory of the source path, one segment at a time: \<open>.\<close> changes nothing, \<open>..\<close>
  removes the last directory segment and does nothing when none is left, any other
  segment is appended; the segments are joined by slashes.  The five examples of the
  specification hold.
\<close>

theorem resolver_as_specified:
  "(\<not> startsWith specifier (S ''.'') \<and> \<not> startsWith specifier (S ''/'')
      \<longrightarrow> resolveModuleSpecifier sourcePath specifier = specifier)
   \<and> (startsWith specifier (S ''/'')
      \<longrightarrow> resolveModuleSpecifier sourcePath specifier = drop 1 specifier)
   \<and> (startsWith specifier (S ''.'')
      \<longrightarrow> resolveModuleSpecifier sourcePath specifier =
            join (S ''/'') (foldl apply_segment (containing_dir sourcePath)
                             (split_on (ch CHR ''/'') specifier)))
   \<and> apply_segment dir (S ''.'') = dir
   \<and> apply_segment (dir @ [seg]) (S ''..'') = dir
   \<and> apply_segment [] (S ''..'') = []
   \<and> (seg \<noteq> S ''.'' \<and> seg \<noteq> S ''..'' \<longrightarrow> apply_segment dir seg = dir @ [seg])
   \<and> resolveModuleSpecifier (S ''src/a/b.js'') (S ''./c.js'') = S ''src/a/c.js''
   \<and> resolveModuleSpecifier (S ''src/a/b.js'') (S ''../c.js'') = S ''src/c.js''
   \<and> resolveModuleSpecifier (S ''x.js'') (S ''../../y.js'') = S ''y.js''
   \<and> resolveModuleSpecifier (S ''x.js'') (S ''/z.js'') = S ''z.js''
   \<and> resolveModuleSpecifier (S ''x.js'') (S ''preact'') = S ''preact''"
proof -
  have seg: "apply_segment dir (S ''.'') = dir"
    "apply_segment (dir @ [seg]) (S ''..'') = dir"
    "apply_segment [] (S ''..'') = []"
    "seg \<noteq> S ''.'' \<and> seg \<noteq> S ''..'' \<longrightarrow> apply_segment dir seg = dir @ [seg]"
    by (simp_all add: apply_segment_def S_def)
  have ex: "resolveModuleSpecifier (S ''src/a/b.js'') (S ''./c.js'') = S ''src/a/c.js''"
    "resolveModuleSpecifier (S ''src/a/b.js'') (S ''../c.js'') = S ''src/c.js''"
    "resolveModuleSpecifier (S ''x.js'') (S ''../../y.js'') = S ''y.js''"
    "resolveModuleSpecifier (S ''x.js'') (S ''/z.js'') = S ''z.js''"
    "resolveModuleSpecifier (S ''x.js'') (S ''preact'') = S ''preact''"
    by code_simp+
  show ?thesis
    using seg ex resolve_bare resolve_rooted resolve_relative by blast
qed

theorem resolver_as_specified_witness:
  "startsWith (S ''../c.js'') (S ''.'')
   \<and> resolveModuleSpecifier (S ''src/a/b.js'') (S ''../c.js'') =
       join (S ''/'') (foldl apply_segment (containing_dir (S ''src/a/b.js''))
                        (split_on (ch CHR ''/'') (S ''../c.js'')))
   \<and> join (S ''/'') (foldl apply_segment (containing_dir (S ''src/a/b.js''))
                        (split_on (ch CHR ''/'') (S ''../c.js''))) = S ''src/c.js''
   \<and> \<not> startsWith (S ''preact'') (S ''.'') \<and> \<not> startsWith (S ''preact'') (S ''/'')
   \<and> resolveModuleSpecifier (S ''x.js'') (S ''preact'') = S ''preact''
   \<and> startsWith (S ''/z.js'') (S ''/'')
   \<and> resolveModuleSpecifier (S ''x.js'') (S ''/z.js'') = drop 1 (S ''/z.js'')
   \<and> S ''a'' \<noteq> S ''.'' \<and> S ''a'' \<noteq> S ''..''
   \<and> apply_segment [S ''src''] (S ''a'') = [S ''src''] @ [S ''a'']"
proof -
  have a: "startsWith (S ''../c.js'') (S ''.'')"
    and b: "\<not> startsWith (S ''preact'') (S ''.'') \<and> \<not> startsWith (S ''preact'') (S ''/'')"
    and c: "startsWith (S ''/z.js'') (S ''/'')"
    and d: "S ''a'' \<noteq> S ''.'' \<and> S ''a'' \<noteq> S ''..''"
    and e: "join (S ''/'') (foldl apply_segment (containing_dir (S ''src/a/b.js''))
                        (split_on (ch CHR ''/'') (S ''../c.js''))) = S ''src/c.js''"
    by code_simp+
  show ?thesis
    using a b c d e
      resolver_as_specified [of "S ''../c.js''" "S ''src/a/b.js''" "[S ''src'']" "S ''a''"]
      resolver_as_specified [of "S ''preact''" "S ''x.js''" "[]" "S ''a''"]
      resolver_as_specified [of "S ''/z.js''" "S ''x.js''" "[]" "S ''a''"]
    by simp
qed

section \<open>Objects\<close>

lemma set_own_entries [simp]: "set (own_entries ob) = set ob"
  by (auto simp: own_entries_def)

lemma set_obj_put: "set (obj_put ob k v) \<subseteq> insert (k, v) (set ob)"
  by (induction ob) auto

lemma set_obj_assign: "set (obj_assign ob k v) \<subseteq> insert (k, v) (set ob)"
  using set_obj_put [of ob k v] by (auto simp: obj_assign_def)

section \<open>Files that are not sources pass through\<close>

lemma processFiles_origin:
  assumes "(p, c) \<in> set (foldl (\<lambda>processedFiles pf.
              obj_assign processedFiles (fst pf) (process_file (fst pf) (snd pf))) acc es)"
  shows "(p, c) \<in> set acc \<or> (\<exists>f. (p, f) \<in> set es \<and> c = process_file p f)"
  using assms
proof (induction es arbitrary: acc)
  case Nil
  then show ?case by simp
next
  case (Cons e es)
  from Cons.IH [OF Cons.prems [simplified]]
  show ?case
  proof
    assume "(p, c) \<in> set (obj_assign acc (fst e) (process_file (fst e) (snd e)))"
    then have "(p, c) = (fst e, process_file (fst e) (snd e)) \<or> (p, c) \<in> set acc"
      using set_obj_assign by fastforce
    then show ?thesis
      by (metis list.set_intros(1) prod.collapse prod.inject)
  next
    assume "\<exists>f. (p, f) \<in> set es \<and> c = process_file p f"
    then show ?thesis by auto
  qed
qed

section \<open>The shell is read-only\<close>

lemma create_file_index_html:
  "create_file st (S ''index.html'') body =
     (st, S ''Error: index.html is READ-ONLY. You cannot modify the Golden Shell.'')"
  by (simp add: create_file_def)

lemma handleFileChange_index_html:
  "selectedFile st = Some (S ''index.html'') \<Longrightarrow> handleFileChange st newContent = (st, None)"
  by (simp add: handleFileChange_def)

text \<open>
  The editor's guard leaves the state alone without telling its caller: the function
  returns no value.
\<close>

theorem editor_reports_nothing:
  "handleFileChange \<lparr>files = INITIAL_FILES, selectedFile = Some (S ''index.html'')\<rparr> (S ''x'')
     = (\<lparr>files = INITIAL_FILES, selectedFile = Some (S ''index.html'')\<rparr>, None)"
  by (simp add: handleFileChange_def)

text \<open>
  C4 (as amended).  \<^verbatim>\<open>create_file\<close> with the path \<^verbatim>\<open>index.html\<close> leaves the state, and so
  every entry of the file system, unchanged and returns the read-only error message,
  whatever the state and the content.  \<^verbatim>\<open>handleFileChange\<close> with \<^verbatim>\<open>index.html\<close>
  selected leaves the state unchanged as well, and returns nothing.
\<close>

theorem shell_is_read_only:
  "create_file st (S ''index.html'') body =
     (st, S ''Error: index.html is READ-ONLY. You cannot modify the Golden Shell.'')
   \<and> startsWith (snd (create_file st (S ''index.html'') body)) (S ''Error'')
   \<and> files (fst (create_file st (S ''index.html'') body)) = files st
   \<and> (selectedFile st = Some (S ''index.html'')
        \<longrightarrow> handleFileChange st newContent = (st, None))"
proof -
  have "startsWith (S ''Error: index.html is READ-ONLY. You cannot modify the Golden Shell.'')
          (S ''Error'')"
    by code_simp
  then show ?thesis
    by (simp add: create_file_index_html handleFileChange_index_html)
qed

theorem shell_is_read_only_witness:
  "selectedFile \<lparr>files = INITIAL_FILES, selectedFile = Some (S ''index.html'')\<rparr>
     = Some (S ''index.html'')
   \<and> files (fst (handleFileChange
         \<lparr>files = INITIAL_FILES, selectedFile = Some (S ''index.html'')\<rparr> (S ''x'')))
     = INITIAL_FILES"
  using shell_is_read_only
    [of "\<lparr>files = INITIAL_FILES, selectedFile = Some (S ''index.html'')\<rparr>" "S ''x''" "S ''x''"]
  by simp

section \<open>Rewriting twice\<close>

lemma replace_from_None:
  "exec_at n r s = None \<Longrightarrow>
   replace_from n r f s = (case s of [] \<Rightarrow> [] | c # cs \<Rightarrow> c # replace_from n r f cs)"
  by (subst replace_from.simps) simp

lemma replace_from_Some:
  "exec_at n r s = Some st \<Longrightarrow> length (fst st) < length s \<Longrightarrow>
   replace_from n r f s =
     f (take (length s - length (fst st)) s) (snd st) @ replace_from n r f (fst st)"
  by (subst replace_from.simps) simp

lemma replace_from_no_match:
  "\<not> test_from n r s \<Longrightarrow> replace_from n r f s = s"
proof (induction s)
  case Nil
  then have "exec_at n r [] = None" by (cases "exec_at n r []") auto
  then show ?case by (simp add: replace_from_None)
next
  case (Cons c cs)
  then have "exec_at n r (c # cs) = None" and "replace_from n r f cs = cs"
    by (cases "exec_at n r (c # cs)"; auto)+
  then show ?case by (simp add: replace_from_None)
qed

lemma replace_all_no_match: "\<not> re_test r s \<Longrightarrow> replace_all r f s = s"
  by (simp add: re_test_def replace_all_def replace_from_no_match)

lemma rewrite_imports_no_match:
  "\<not> re_test static_import_re s \<Longrightarrow> \<not> re_test dynamic_import_re s \<Longrightarrow> rewrite_imports path s = s"
  by (simp add: rewrite_imports_def replace_all_no_match)

text \<open>
  The rewrite is not idempotent.  In \<^verbatim>\<open>a.js\<close> the specifier \<^verbatim>\<open>//b.js\<close> loses one
  slash in each pass, so the second pass changes the output of the first.
\<close>

theorem rewrite_not_idempotent:
  "rewrite_imports (S ''a.js'') (S ''import x from \"//b.js\"'') = S ''import x from \"/b.js\"''
   \<and> rewrite_imports (S ''a.js'') (rewrite_imports (S ''a.js'') (S ''import x from \"//b.js\"''))
       = S ''import x from \"b.js\"''
   \<and> rewrite_imports (S ''a.js'') (rewrite_imports (S ''a.js'') (S ''import x from \"//b.js\"''))
       \<noteq> rewrite_imports (S ''a.js'') (S ''import x from \"//b.js\"'')"
  by code_simp

text \<open>
  C6 (as amended).  A second rewrite changes nothing when the output of the first holds no
  match of the static and of the dynamic import pattern, as after rewriting
  \<^verbatim>\<open>./c.js\<close> in \<^verbatim>\<open>src/a/b.js\<close>.  The rewrite is a function of the path and the text
  alone.
\<close>

theorem rewrite_stable_without_matches:
  "\<not> re_test static_import_re (rewrite_imports path source)
   \<Longrightarrow> \<not> re_test dynamic_import_re (rewrite_imports path source)
   \<Longrightarrow> rewrite_imports path (rewrite_imports path source) = rewrite_imports path source"
  by (rule rewrite_imports_no_match)

theorem rewrite_stable_without_matches_witness:
  "\<not> re_test static_import_re (rewrite_imports (S ''src/a/b.js'') (S ''import x from \"./c.js\"''))
   \<and> \<not> re_test dynamic_import_re (rewrite_imports (S ''src/a/b.js'') (S ''import x from \"./c.js\"''))
   \<and> rewrite_imports (S ''src/a/b.js'') (S ''import x from \"./c.js\"'') = S ''import x from \"src/a/c.js\"''
   \<and> rewrite_imports (S ''src/a/b.js'')
         (rewrite_imports (S ''src/a/b.js'') (S ''import x from \"./c.js\"''))
       = S ''import x from \"src/a/c.js\"''"
proof -
  have a: "rewrite_imports (S ''src/a/b.js'') (S ''import x from \"./c.js\"'') = S ''import x from \"src/a/c.js\"''"
    by code_simp
  have b: "\<not> re_test static_import_re (S ''import x from \"src/a/c.js\"'')"
    by code_simp
  have c: "\<not> re_test dynamic_import_re (S ''import x from \"src/a/c.js\"'')"
    by code_simp
  show ?thesis
    using a b c rewrite_stable_without_matches [of "S ''src/a/b.js''" "S ''import x from \"./c.js\"''"]
    by simp
qed

section \<open>The build reads paths and contents only\<close>

lemma insort_key_map_values:
  "(\<And>x. k' (h x) = k x) \<Longrightarrow> insort_key k' (h x) (map h ys) = map h (insort_key k x ys)"
  by (induction ys) simp_all

lemma sort_key_map_values:
  "(\<And>x. k' (h x) = k x) \<Longrightarrow> sort_key k' (map h xs) = map h (sort_key k xs)"
  by (induction xs) (simp_all add: insort_key_map_values)

lemma own_entries_map_values:
  "own_entries (map (\<lambda>kv. (fst kv, g (snd kv))) ob) = map (\<lambda>kv. (fst kv, g (snd kv))) (own_entries ob)"
proof -
  have "sort_key index_rank (map (\<lambda>kv. (fst kv, g (snd kv))) xs)
          = map (\<lambda>kv. (fst kv, g (snd kv))) (sort_key index_rank xs)" for xs
    by (rule sort_key_map_values) (simp add: index_rank_def)
  then show ?thesis
    by (simp add: own_entries_def filter_map o_def)
qed

lemma foldl_same_projection:
  assumes "\<And>acc e e'. c e = c e' \<Longrightarrow> step acc e = step acc e'"
    and "map c es = map c es'"
  shows "foldl step acc es = foldl step acc es'"
  using assms(2)
proof (induction es arbitrary: es' acc)
  case Nil
  then show ?case by simp
next
  case (Cons e es)
  then obtain e' es'' where "es' = e' # es''" "c e = c e'" "map c es = map c es''"
    by (cases es') auto
  with Cons.IH [of es''] assms(1) [of e e'] show ?case by simp
qed

lemma same_contents_entries:
  assumes "map (\<lambda>pf. (fst pf, content (snd pf))) vfs = map (\<lambda>pf. (fst pf, content (snd pf))) vfs'"
  shows "map (\<lambda>pf. (fst pf, content (snd pf))) (own_entries vfs)
           = map (\<lambda>pf. (fst pf, content (snd pf))) (own_entries vfs')"
  using assms by (simp flip: own_entries_map_values)

lemma same_contents_processFiles:
  assumes "map (\<lambda>pf. (fst pf, content (snd pf))) vfs = map (\<lambda>pf. (fst pf, content (snd pf))) vfs'"
  shows "processFiles vfs = processFiles vfs'"
  unfolding processFiles_def
  by (rule foldl_same_projection [OF _ same_contents_entries [OF assms]])
     (simp add: process_file_def)

lemma same_contents_cssContent:
  assumes "map (\<lambda>pf. (fst pf, content (snd pf))) vfs = map (\<lambda>pf. (fst pf, content (snd pf))) vfs'"
  shows "cssContent vfs = cssContent vfs'"
  unfolding cssContent_def
  by (rule foldl_same_projection [OF _ same_contents_entries [OF assms]]) simp

lemma map_of_same_contents:
  "map (\<lambda>pf. (fst pf, g (snd pf))) ob = map (\<lambda>pf. (fst pf, g (snd pf))) ob'
   \<Longrightarrow> map_option g (map_of ob k) = map_option g (map_of ob' k)"
proof (induction ob arbitrary: ob')
  case Nil
  then show ?case by simp
next
  case (Cons e ob)
  then obtain e' ob'' where "ob' = e' # ob''" "fst e = fst e'" "g (snd e) = g (snd e')"
      "map (\<lambda>pf. (fst pf, g (snd pf))) ob = map (\<lambda>pf. (fst pf, g (snd pf))) ob''"
    by (cases ob') auto
  with Cons.IH [of ob''] show ?case
    by (cases e; cases e') auto
qed

lemma same_contents_entry_document:
  assumes "map (\<lambda>pf. (fst pf, content (snd pf))) vfs = map (\<lambda>pf. (fst pf, content (snd pf))) vfs'"
  shows "entry_document vfs = entry_document vfs'"
  using map_of_same_contents [OF assms, of "S ''index.html''"]
  by (auto simp: entry_document_def obj_get_def split: option.splits)

text \<open>
  C7.  The preview and the import map are functions of the snapshot, and of nothing but
  the paths and contents of its entries in their order: two snapshots that agree on
  these give the same import map and the same document.  Two calls on one unchanged
  snapshot are the case where both snapshots are the same.
\<close>

theorem build_is_a_function_of_the_snapshot:
  assumes "map (\<lambda>pf. (fst pf, content (snd pf))) vfs = map (\<lambda>pf. (fst pf, content (snd pf))) vfs'"
  shows "buildPreviewContent vfs = buildPreviewContent vfs'
         \<and> synthesize_imports vfs = synthesize_imports vfs'"
proof -
  have "styleTag vfs = styleTag vfs'"
    using same_contents_cssContent [OF assms] by (simp add: styleTag_def)
  then show ?thesis
    using same_contents_processFiles [OF assms] same_contents_entry_document [OF assms]
    by (simp add: buildPreviewContent_def synthesize_imports_def split: sum.splits)
qed

theorem build_is_a_function_of_the_snapshot_witness:
  "map (\<lambda>pf. (fst pf, content (snd pf)))
       [(S ''a.css'', \<lparr>name = Some (S ''a.css''), content = S ''b{}'', language = Some (S ''css'')\<rparr>)]
     = map (\<lambda>pf. (fst pf, content (snd pf)))
       [(S ''a.css'', \<lparr>name = None, content = S ''b{}'', language = None\<rparr>)]
   \<and> buildPreviewContent
       [(S ''a.css'', \<lparr>name = Some (S ''a.css''), content = S ''b{}'', language = Some (S ''css'')\<rparr>)]
     = buildPreviewContent
       [(S ''a.css'', \<lparr>name = None, content = S ''b{}'', language = None\<rparr>)]
   \<and> synthesize_imports
       [(S ''a.css'', \<lparr>name = Some (S ''a.css''), content = S ''b{}'', language = Some (S ''css'')\<rparr>)]
     = synthesize_imports
       [(S ''a.css'', \<lparr>name = None, content = S ''b{}'', language = None\<rparr>)]"
  using build_is_a_function_of_the_snapshot
    [of "[(S ''a.css'', \<lparr>name = Some (S ''a.css''), content = S ''b{}'', language = Some (S ''css'')\<rparr>)]"
        "[(S ''a.css'', \<lparr>name = None, content = S ''b{}'', language = None\<rparr>)]"]
  by simp

section \<open>A lone surrogate stops the build\<close>

lemma keys_facts:
  "array_index (S ''index.html'') = None"
  "array_index (S ''src/main.js'') = None"
  "S ''index.html'' \<noteq> S ''__proto__''"
  "S ''src/main.js'' \<noteq> S ''__proto__''"
  "S ''index.html'' \<noteq> S ''src/main.js''"
  "\<not> is_source_path (S ''index.html'')"
  "is_source_path (S ''src/main.js'')"
  "\<not> endsWith (S ''src/main.js'') (S ''.css'')"
  by code_simp+

lemma lone_surrogate_processed:
  "processFiles lone_surrogate_vfs = [(S ''index.html'', INITIAL_index_html), (S ''src/main.js'', [0xD800])]"
proof -
  have "rewrite_imports (S ''src/main.js'') [0xD800] = [0xD800]"
    by code_simp
  then show ?thesis
    using keys_facts
    by (simp add: processFiles_def lone_surrogate_vfs_def INITIAL_FILES_def own_entries_def
        obj_assign_def obj_get_def process_file_def)
qed

lemma lone_surrogate_imports: "synthesize_imports lone_surrogate_vfs = Inl URIError"
proof -
  have "data_uri [0xD800] = Inl URIError"
    by code_simp
  then show ?thesis
    using keys_facts
    by (simp add: synthesize_imports_def lone_surrogate_processed own_entries_def import_step_def)
qed

text \<open>
  C5.  The build does not return for every file system: \<^verbatim>\<open>encodeURIComponent\<close> throws
  a \<^verbatim>\<open>URIError\<close> on the content of \<^verbatim>\<open>src/main.js\<close>, nothing catches it, and
  \<^verbatim>\<open>buildPreviewContent\<close> ends with that error instead of a document.
\<close>

theorem build_throws_on_lone_surrogate:
  "buildPreviewContent lone_surrogate_vfs = Inl URIError"
  by (simp add: buildPreviewContent_def lone_surrogate_imports)

section \<open>The extension test and the cleaned path\<close>

lemma test_from_iff: "test_from n r s \<longleftrightarrow> (\<exists>i\<le>length s. exec_at n r (drop i s) \<noteq> None)"
proof (induction s)
  case Nil
  then show ?case by simp
next
  case (Cons c cs)
  show ?case
  proof
    assume "test_from n r (c # cs)"
    then consider "exec_at n r (c # cs) \<noteq> None" | "test_from n r cs" by auto
    then show "\<exists>i\<le>length (c # cs). exec_at n r (drop i (c # cs)) \<noteq> None"
    proof cases
      case 1
      then have "exec_at n r (drop 0 (c # cs)) \<noteq> None" by simp
      then show ?thesis by blast
    next
      case 2
      with Cons.IH obtain i where "i \<le> length cs" "exec_at n r (drop i cs) \<noteq> None" by auto
      then have "Suc i \<le> length (c # cs)" "exec_at n r (drop (Suc i) (c # cs)) \<noteq> None" by simp_all
      then show ?thesis by blast
    qed
  next
    assume "\<exists>i\<le>length (c # cs). exec_at n r (drop i (c # cs)) \<noteq> None"
    then obtain i where i: "i \<le> length (c # cs)" "exec_at n r (drop i (c # cs)) \<noteq> None" by blast
    show "test_from n r (c # cs)"
    proof (cases i)
      case 0
      with i show ?thesis by simp
    next
      case (Suc j)
      with i have "j \<le> length cs" "exec_at n r (drop j cs) \<noteq> None" by simp_all
      with Cons.IH have "test_from n r cs" by blast
      then show ?thesis by simp
    qed
  qed
qed

lemma endsWith_iff: "endsWith s p \<longleftrightarrow> (\<exists>i\<le>length s. drop i s = p)"
proof
  assume "endsWith s p"
  then show "\<exists>i\<le>length s. drop i s = p"
    by (auto simp: endsWith_def intro!: exI [of _ "length s - length p"])
next
  assume "\<exists>i\<le>length s. drop i s = p"
  then obtain i where "i \<le> length s" "drop i s = p" by blast
  then show "endsWith s p" by (auto simp: endsWith_def)
qed

lemma length_S [simp]: "length (S cs) = length cs"
  by (simp add: S_def)

lemma in_matches_Lit:
  "st' \<in> set (matches n (Lit cs) st) \<longleftrightarrow> fst st = cs @ fst st' \<and> snd st' = snd st"
proof
  assume "st' \<in> set (matches n (Lit cs) st)"
  then have "take (length cs) (fst st) = cs" and "st' = (drop (length cs) (fst st), snd st)"
    by (auto simp: matches.simps split: if_splits)
  then show "fst st = cs @ fst st' \<and> snd st' = snd st"
    by (metis append_take_drop_id fst_conv snd_conv)
next
  assume "fst st = cs @ fst st' \<and> snd st' = snd st"
  then show "st' \<in> set (matches n (Lit cs) st)"
    by (cases st') (simp add: matches.simps)
qed

lemma in_matches_Cls:
  "st' \<in> set (matches n (Cls k) st)
   \<longleftrightarrow> (\<exists>c. fst st = c # fst st' \<and> in_cls k c \<and> snd st' = snd st)"
  by (cases st'; cases "fst st") (auto simp: matches.simps)

lemma in_matches_Seq:
  "st'' \<in> set (matches n (Seq a b) st)
   \<longleftrightarrow> (\<exists>st'. st' \<in> set (matches n a st) \<and> st'' \<in> set (matches n b st'))"
  by (auto simp: matches.simps)

lemma in_matches_Alt:
  "st' \<in> set (matches n (Alt a b) st)
   \<longleftrightarrow> st' \<in> set (matches n a st) \<or> st' \<in> set (matches n b st)"
  by (auto simp: matches.simps)

lemma in_matches_Grp:
  "st' \<in> set (matches n (Grp a) st)
   \<longleftrightarrow> (\<exists>st0. st0 \<in> set (matches n a st) \<and> fst st' = fst st0
          \<and> snd st' = snd st0 @ [take (length (fst st) - length (fst st0)) (fst st)])"
  by (cases st') (force simp: matches.simps image_iff)

lemma in_matches_Bol:
  "st' \<in> set (matches n Bol st) \<longleftrightarrow> st' = st \<and> length (fst st) = n"
  by (auto simp: matches.simps)

lemma in_matches_Eol:
  "st' \<in> set (matches n Eol st) \<longleftrightarrow> st' = st \<and> fst st = []"
  by (auto simp: matches.simps)

lemmas in_matches =
  in_matches_Lit in_matches_Cls in_matches_Seq in_matches_Alt in_matches_Grp in_matches_Bol
  in_matches_Eol

lemma exec_at_iff: "exec_at n r s \<noteq> None \<longleftrightarrow> (\<exists>st'. st' \<in> set (matches n r (s, [])))"
  by (cases "matches n r (s, [])") (auto simp: exec_at_def)

lemma S_append: "S (a @ b) = S a @ S b"
  by (simp add: S_def)

lemma exec_source_ext:
  "exec_at n source_ext_re s \<noteq> None
   \<longleftrightarrow> s = S ''.js'' \<or> s = S ''.jsx'' \<or> s = S ''.ts'' \<or> s = S ''.tsx''"
proof -
  have "exec_at n source_ext_re s \<noteq> None
        \<longleftrightarrow> s = S ''.'' @ S ''js'' \<or> s = S ''.'' @ S ''jsx'' \<or> s = S ''.'' @ S ''ts''
            \<or> s = S ''.'' @ S ''tsx''"
    unfolding exec_at_iff source_ext_re_def cat.simps in_matches
    by auto
  then show ?thesis
    by (simp flip: S_append)
qed

lemma is_source_path_iff:
  "is_source_path path \<longleftrightarrow>
     endsWith path (S ''.js'') \<or> endsWith path (S ''.jsx'')
     \<or> endsWith path (S ''.ts'') \<or> endsWith path (S ''.tsx'')"
  unfolding is_source_path_def re_test_def test_from_iff endsWith_iff exec_source_ext
  by blast

section \<open>The import map\<close>

lemma endsWith_suffix: "endsWith s p \<longleftrightarrow> suffix p s"
proof
  assume "endsWith s p"
  then have "s = take (length s - length p) s @ p"
    by (metis append_take_drop_id endsWith_def)
  then show "suffix p s" by (metis suffixI)
next
  assume "suffix p s"
  then obtain a where "s = a @ p" by (auto simp: suffix_def)
  then show "endsWith s p" by (simp add: endsWith_def)
qed

lemma source_path_facts:
  assumes "is_source_path path"
  shows "path \<noteq> S ''index.html''" and "\<not> endsWith path (S ''.css'')" and "path \<noteq> S ''__proto__''"
proof -
  have a: "\<not> is_source_path (S ''index.html'')" "\<not> is_source_path (S ''__proto__'')"
    by code_simp+
  with assms show "path \<noteq> S ''index.html''" "path \<noteq> S ''__proto__''" by auto
  have b: "\<not> suffix (S ''.js'') (S ''.css'')" "\<not> suffix (S ''.jsx'') (S ''.css'')"
    "\<not> suffix (S ''.ts'') (S ''.css'')" "\<not> suffix (S ''.tsx'') (S ''.css'')"
    "\<not> suffix (S ''.css'') (S ''.js'')" "\<not> suffix (S ''.css'') (S ''.jsx'')"
    "\<not> suffix (S ''.css'') (S ''.ts'')" "\<not> suffix (S ''.css'') (S ''.tsx'')"
    by (simp_all add: S_def suffix_Cons)
  show "\<not> endsWith path (S ''.css'')"
  proof
    assume "endsWith path (S ''.css'')"
    then have "suffix (S ''.css'') path" by (simp add: endsWith_suffix)
    moreover from assms obtain e where "suffix e path" "e \<in> {S ''.js'', S ''.jsx'', S ''.ts'', S ''.tsx''}"
      by (auto simp: is_source_path_iff endsWith_suffix)
    ultimately have "suffix (S ''.css'') e \<or> suffix e (S ''.css'')"
      by (meson suffix_same_cases)
    with b \<open>e \<in> _\<close> show False by auto
  qed
qed

lemma obj_get_obj_put:
  "obj_get (obj_put ob k v) k' = (if k' = k then Some v else obj_get ob k')"
  by (induction ob) (auto simp: obj_get_def)

lemma obj_get_obj_assign:
  "obj_get (obj_assign ob k v) k' =
     (if k' = k \<and> (k \<noteq> S ''__proto__'' \<or> obj_get ob k \<noteq> None) then Some v else obj_get ob k')"
  by (auto simp: obj_assign_def obj_get_obj_put)

lemma distinct_obj_put: "distinct (map fst ob) \<Longrightarrow> distinct (map fst (obj_put ob k v))"
proof (induction ob)
  case Nil
  then show ?case by simp
next
  case (Cons p ob)
  have "fst ` set (obj_put ob k v) \<subseteq> insert k (fst ` set ob)"
    using set_obj_put [of ob k v] by force
  with Cons show ?case by auto
qed

lemma distinct_obj_assign: "distinct (map fst ob) \<Longrightarrow> distinct (map fst (obj_assign ob k v))"
  by (simp add: obj_assign_def distinct_obj_put)

lemma obj_get_assign_all:
  "obj_get (foldl (\<lambda>ob k. obj_assign ob k v) ob ks) k' =
     (if k' \<in> set ks \<and> (k' \<noteq> S ''__proto__'' \<or> obj_get ob k' \<noteq> None) then Some v
      else obj_get ob k')"
proof (induction ks arbitrary: ob)
  case Nil
  then show ?case by simp
next
  case (Cons k ks)
  have "obj_get (foldl (\<lambda>ob k. obj_assign ob k v) (obj_assign ob k v) ks) k' =
     (if k' \<in> set ks \<and> (k' \<noteq> S ''__proto__'' \<or> obj_get (obj_assign ob k v) k' \<noteq> None) then Some v
      else obj_get (obj_assign ob k v) k')"
    by (rule Cons.IH)
  then show ?case
    by (cases "k' = k"; cases "k' \<in> set ks"; cases "k' = S ''__proto__''"; cases "obj_get ob k'")
       (simp_all add: obj_get_obj_assign)
qed

lemma register_aliases_foldl:
  "register_aliases imports path uri =
     foldl (\<lambda>ob k. obj_assign ob k uri) imports
       (if strip_ext (clean_path path) \<noteq> clean_path path then aliases path
        else take 3 (aliases path))"
  by (simp add: register_aliases_def aliases_def Let_def)

lemma obj_get_register_aliases:
  "obj_get (register_aliases imports path uri) k =
     (if k \<in> set (aliases path) \<and> (k \<noteq> S ''__proto__'' \<or> obj_get imports k \<noteq> None)
      then Some uri else obj_get imports k)"
proof (cases "strip_ext (clean_path path) = clean_path path")
  case True
  then have "set (take 3 (aliases path)) = set (aliases path)"
    by (auto simp: aliases_def Let_def)
  with True show ?thesis
    by (simp only: register_aliases_foldl obj_get_assign_all if_False simp_thms)
next
  case False
  then show ?thesis
    by (simp only: register_aliases_foldl obj_get_assign_all if_True simp_thms)
qed

lemma import_step_cases:
  "import_step imps (p, c) =
     (if is_source_path p
      then (case data_uri c of Inl e \<Rightarrow> Inl e | Inr uri \<Rightarrow> Inr (register_aliases imps p uri))
      else Inr imps)"
  using source_path_facts [of p] by (auto simp: import_step_def split: sum.splits)

lemma import_loop_untouched:
  assumes "import_loop imps es = Inr final"
    and "\<forall>pc\<in>set es. is_source_path (fst pc) \<longrightarrow> k \<notin> set (aliases (fst pc))"
  shows "obj_get final k = obj_get imps k"
  using assms
proof (induction es arbitrary: imps)
  case Nil
  then show ?case by simp
next
  case (Cons pc es)
  obtain p c where pc: "pc = (p, c)" by (cases pc)
  from Cons.prems(1) obtain mid where mid: "import_step imps (p, c) = Inr mid"
    and rest: "import_loop mid es = Inr final"
    by (auto simp: pc split: sum.splits)
  have "obj_get mid k = obj_get imps k"
    using mid Cons.prems(2)
    by (auto simp: pc import_step_cases obj_get_register_aliases split: if_splits sum.splits)
  moreover have "obj_get final k = obj_get mid k"
    using Cons.IH [OF rest] Cons.prems(2) by simp
  ultimately show ?case by simp
qed

lemma import_loop_keeps_keys:
  assumes "import_loop imps es = Inr final" and "obj_get imps k \<noteq> None"
  shows "obj_get final k \<noteq> None"
  using assms
proof (induction es arbitrary: imps)
  case Nil
  then show ?case by simp
next
  case (Cons pc es)
  obtain p c where pc: "pc = (p, c)" by (cases pc)
  from Cons.prems(1) obtain mid where mid: "import_step imps (p, c) = Inr mid"
    and rest: "import_loop mid es = Inr final"
    by (auto simp: pc split: sum.splits)
  have "obj_get mid k \<noteq> None"
    using mid Cons.prems(2)
    by (auto simp: import_step_cases obj_get_register_aliases split: if_splits sum.splits)
  then show ?case by (rule Cons.IH [OF rest])
qed

lemma import_loop_split:
  assumes "import_loop imps (before @ (p, c) # after) = Inr final" and "is_source_path p"
  shows "\<exists>mid uri. import_loop imps before = Inr mid \<and> data_uri c = Inr uri
           \<and> import_loop (register_aliases mid p uri) after = Inr final"
  using assms(1)
proof (induction before arbitrary: imps)
  case Nil
  then show ?case
    using assms(2) by (auto simp: import_step_cases split: sum.splits)
next
  case (Cons pc before)
  then obtain mid where "import_step imps pc = Inr mid"
    and "import_loop mid (before @ (p, c) # after) = Inr final"
    by (auto split: sum.splits)
  with Cons.IH [of mid] show ?case by auto
qed

lemma mset_own_entries: "mset (own_entries ob) = mset ob"
  by (simp add: own_entries_def)

lemma distinct_own_entries: "distinct (map fst (own_entries ob)) \<longleftrightarrow> distinct (map fst ob)"
proof -
  have "mset (map fst (own_entries ob)) = mset (map fst ob)"
    by (simp add: mset_own_entries)
  then show ?thesis by (rule mset_eq_imp_distinct_iff)
qed

lemma process_fold_untouched:
  "p \<notin> fst ` set es \<Longrightarrow>
   obj_get (foldl (\<lambda>processedFiles pf.
              obj_assign processedFiles (fst pf) (process_file (fst pf) (snd pf))) acc es) p
     = obj_get acc p"
  by (induction es arbitrary: acc) (auto simp: obj_get_obj_assign)

lemma process_fold_lookup:
  assumes "distinct (map fst es)" and "(p, f) \<in> set es" and "p \<noteq> S ''__proto__''"
  shows "obj_get (foldl (\<lambda>processedFiles pf.
              obj_assign processedFiles (fst pf) (process_file (fst pf) (snd pf))) acc es) p
           = Some (process_file p f)"
  using assms(1,2)
proof (induction es arbitrary: acc)
  case Nil
  then show ?case by simp
next
  case (Cons e es)
  show ?case
  proof (cases "e = (p, f)")
    case True
    with Cons.prems(1) have "p \<notin> fst ` set es" by auto
    with True assms(3) show ?thesis
      by (simp add: process_fold_untouched obj_get_obj_assign)
  next
    case False
    with Cons.prems have "(p, f) \<in> set es" "distinct (map fst es)" by auto
    with Cons.IH show ?thesis by simp
  qed
qed

lemma process_fold_distinct:
  "distinct (map fst acc) \<Longrightarrow>
   distinct (map fst (foldl (\<lambda>processedFiles pf.
              obj_assign processedFiles (fst pf) (process_file (fst pf) (snd pf))) acc es))"
  by (induction es arbitrary: acc) (simp_all add: distinct_obj_assign)

lemma processFiles_distinct: "distinct (map fst (processFiles vfs))"
  by (simp add: processFiles_def process_fold_distinct)

lemma processFiles_lookup:
  assumes "distinct (map fst vfs)" and "(p, f) \<in> set vfs" and "p \<noteq> S ''__proto__''"
  shows "(p, process_file p f) \<in> set (processFiles vfs)"
proof -
  have "obj_get (processFiles vfs) p = Some (process_file p f)"
    unfolding processFiles_def
    by (rule process_fold_lookup) (use assms in \<open>simp_all add: distinct_own_entries\<close>)
  then show ?thesis
    by (simp add: obj_get_def map_of_SomeD)
qed

lemma processFiles_from_vfs:
  "(p, c) \<in> set (processFiles vfs) \<Longrightarrow> \<exists>f. (p, f) \<in> set vfs \<and> c = process_file p f"
  using processFiles_origin [of p c "[]" "own_entries vfs"] by (auto simp: processFiles_def)

lemma more_keys_facts:
  "array_index (S ''src/main.ts'') = None"
  "S ''src/main.ts'' \<noteq> S ''__proto__''"
  "S ''index.html'' \<noteq> S ''src/main.ts''"
  "S ''src/main.js'' \<noteq> S ''src/main.ts''"
  "is_source_path (S ''src/main.ts'')"
  by code_simp+

lemma import_loop_skips_index_html:
  "import_loop imps ((S ''index.html'', c) # es) = import_loop imps es"
  by (simp add: import_step_def)

lemma scenario_processed:
  "processFiles scenario_vfs = [(S ''index.html'', INITIAL_index_html), (S ''src/main.js'', scenario_source)]"
proof -
  have "rewrite_imports (S ''src/main.js'') scenario_source = scenario_source"
    by code_simp
  then show ?thesis
    using keys_facts
    by (simp add: processFiles_def scenario_vfs_def INITIAL_FILES_def own_entries_def
        obj_assign_def obj_get_def process_file_def)
qed

lemma scenario_synthesized: "synthesize_imports scenario_vfs = Inr scenario_imports"
proof -
  have "synthesize_imports scenario_vfs = import_loop registry [(S ''src/main.js'', scenario_source)]"
    using keys_facts
    by (simp add: synthesize_imports_def scenario_processed own_entries_def
        import_loop_skips_index_html del: import_loop.simps)
  also have "\<dots> = Inr scenario_imports"
    by code_simp
  finally show ?thesis .
qed

lemma collision_processed:
  "processFiles collision_vfs =
     [(S ''index.html'', INITIAL_index_html), (S ''src/main.js'', S ''a()''), (S ''src/main.ts'', S ''b()'')]"
proof -
  have "rewrite_imports (S ''src/main.js'') (S ''a()'') = S ''a()''"
    "rewrite_imports (S ''src/main.ts'') (S ''b()'') = S ''b()''"
    by code_simp+
  then show ?thesis
    using keys_facts more_keys_facts
    by (simp add: processFiles_def collision_vfs_def INITIAL_FILES_def own_entries_def
        obj_assign_def obj_get_def process_file_def)
qed


section \<open>First occurrences\<close>

lemma compatible_iff: "compatible p s \<longleftrightarrow> prefix p s \<or> prefix s p"
  by (induction p s rule: compatible.induct) (simp_all, blast)

lemma compatible_appendI: "x @ r = p @ t \<Longrightarrow> compatible p x"
  unfolding compatible_iff
  by (metis append_eq_append_conv2 prefixI)

lemma clean_iff: "clean p s \<longleftrightarrow> (\<forall>i<length s. \<not> compatible p (drop i s))"
proof (induction s)
  case Nil
  then show ?case by simp
next
  case (Cons c s)
  have "(\<forall>i<length (c # s). \<not> compatible p (drop i (c # s)))
        \<longleftrightarrow> \<not> compatible p (c # s) \<and> (\<forall>i<length s. \<not> compatible p (drop i s))"
    by (auto simp: less_Suc_eq_0_disj)
  with Cons show ?case by simp
qed

lemma clean_no_occurrence:
  assumes "clean p a" and "i < length a"
  shows "take (length p) (drop i (a @ r)) \<noteq> p"
proof
  assume "take (length p) (drop i (a @ r)) = p"
  moreover have "drop i (a @ r) = drop i a @ r"
    using assms(2) by simp
  ultimately have "take (length p) (drop i a @ r) = p" by simp
  then have "drop i a @ r = p @ drop (length p) (drop i a @ r)"
    by (metis append_take_drop_id)
  then have "compatible p (drop i a)" by (rule compatible_appendI)
  with assms show False by (simp add: clean_iff)
qed

lemma compatible_appendD: "compatible p (x @ y) \<Longrightarrow> compatible p x"
  by (induction p x rule: compatible.induct) simp_all

lemma clean_append: "clean p a \<Longrightarrow> clean p b \<Longrightarrow> clean p (a @ b)"
proof (induction a)
  case Nil
  then show ?case by simp
next
  case (Cons c a)
  have "\<not> compatible p ((c # a) @ b)"
    using Cons.prems(1) compatible_appendD [of p "c # a" b] by auto
  with Cons show ?case by simp
qed

lemma clean_join:
  "list_all (clean p) ls \<Longrightarrow> clean p sep \<Longrightarrow> clean p (join sep ls)"
  by (induction sep ls rule: join.induct) (simp_all add: clean_append)

lemma clean_first_char: "p \<noteq> [] \<Longrightarrow> hd p \<notin> set s \<Longrightarrow> clean p s"
  by (induction s) (auto simp: neq_Nil_conv)

lemma compatible_map_ch [simp]: "compatible (map ch p) (map ch s) = compatible p s"
  by (induction p s rule: compatible.induct) simp_all

lemma clean_S: "clean (S p) (S s) = clean p s"
proof (induction s)
  case Nil
  then show ?case by (simp add: S_def)
next
  case (Cons c s)
  have "compatible (map ch p) (ch c # map ch s) = compatible p (c # s)"
    using compatible_map_ch [of p "c # s"] by simp
  with Cons show ?case by (simp add: S_def)
qed

lemma index_of_first:
  assumes "clean p a"
  shows "index_of p (a @ p @ b) = Some (length a)"
  using assms
proof (induction a)
  case Nil
  have "take (length p) (p @ b) = p" by simp
  then show ?case by (cases "p @ b") auto
next
  case (Cons c a)
  have "take (length p) (drop 0 ((c # a) @ p @ b)) \<noteq> p"
    by (rule clean_no_occurrence [OF Cons.prems]) simp
  with Cons show ?case by simp
qed

lemma index_of_None_iff: "index_of p s = None \<longleftrightarrow> (\<forall>i\<le>length s. take (length p) (drop i s) \<noteq> p)"
proof (induction s)
  case Nil
  then show ?case by auto
next
  case (Cons c s)
  have "(\<forall>i\<le>length (c # s). take (length p) (drop i (c # s)) \<noteq> p)
        \<longleftrightarrow> take (length p) (c # s) \<noteq> p \<and> (\<forall>i\<le>length s. take (length p) (drop i s) \<noteq> p)"
  proof (intro iffI conjI allI impI)
    fix i
    assume a: "take (length p) (c # s) \<noteq> p \<and> (\<forall>i\<le>length s. take (length p) (drop i s) \<noteq> p)"
      and i: "i \<le> length (c # s)"
    show "take (length p) (drop i (c # s)) \<noteq> p"
      using a i by (cases i) simp_all
  next
    assume a: "\<forall>i\<le>length (c # s). take (length p) (drop i (c # s)) \<noteq> p"
    from a have "take (length p) (drop 0 (c # s)) \<noteq> p" by blast
    then show "take (length p) (c # s) \<noteq> p" by simp
  next
    fix i
    assume a: "\<forall>i\<le>length (c # s). take (length p) (drop i (c # s)) \<noteq> p"
      and i: "i \<le> length s"
    from a i have "take (length p) (drop (Suc i) (c # s)) \<noteq> p" by (metis Suc_le_mono length_Cons)
    then show "take (length p) (drop i s) \<noteq> p" by simp
  qed
  with Cons show ?case by auto
qed

lemma index_of_Some:
  "index_of p s = Some i \<Longrightarrow>
     i \<le> length s \<and> take (length p) (drop i s) = p \<and> (\<forall>j<i. take (length p) (drop j s) \<noteq> p)"
proof (induction s arbitrary: i)
  case Nil
  then show ?case by (auto split: if_splits)
next
  case (Cons c s)
  show ?case
  proof (cases "take (length p) (c # s) = p")
    case True
    with Cons.prems show ?thesis by simp
  next
    case False
    with Cons.prems obtain j where j: "index_of p s = Some j" "i = Suc j" by auto
    from Cons.IH [OF j(1)] False j(2) show ?thesis
      by (auto simp: less_Suc_eq_0_disj)
  qed
qed

lemma str_includes_iff: "str_includes s p \<longleftrightarrow> (\<exists>a b. s = a @ p @ b)"
proof
  assume "str_includes s p"
  then obtain i where "index_of p s = Some i" by (auto simp: str_includes_def)
  then have "take (length p) (drop i s) = p" by (simp add: index_of_Some)
  then have "s = take i s @ p @ drop (length p) (drop i s)"
    by (metis append_take_drop_id)
  then show "\<exists>a b. s = a @ p @ b" by blast
next
  assume "\<exists>a b. s = a @ p @ b"
  then obtain a b where "s = a @ p @ b" by blast
  then have "length a \<le> length s" "take (length p) (drop (length a) s) = p" by simp_all
  then show "str_includes s p"
    unfolding str_includes_def index_of_None_iff by blast
qed

lemma clean_not_includes: "clean p s \<Longrightarrow> p \<noteq> [] \<Longrightarrow> \<not> str_includes s p"
proof
  assume c: "clean p s" and "p \<noteq> []" and "str_includes s p"
  then obtain a b where s: "s = a @ p @ b" by (auto simp: str_includes_iff)
  with \<open>p \<noteq> []\<close> have "length a < length s" by (cases p) simp_all
  from clean_no_occurrence [OF c this, of "[]"] s show False by simp
qed

lemma get_substitution_plain:
  "ch CHR ''$'' \<notin> set t \<Longrightarrow> get_substitution m a b t = t"
  by (induction m a b t rule: get_substitution.induct) auto

lemma replace_string_at:
  "index_of p s = Some i \<Longrightarrow>
   replace_string s p t =
     take i s @ get_substitution p (take i s) (drop (i + length p) s) t @ drop (i + length p) s"
  by (simp add: replace_string_def Let_def)

lemma replace_string_first:
  "clean p a \<Longrightarrow>
   replace_string (a @ p @ b) p t = a @ get_substitution p a b t @ b"
  by (simp add: replace_string_at [OF index_of_first])

section \<open>The injections after the head and body tags\<close>

lemma errorScript_plain: "ch CHR ''$'' \<notin> set errorScript"
  by code_simp

lemma tag_lengths: "length (S ''<head>'') = 6" "length (S ''<body>'') = 6"
  by simp_all

lemma inject_head_absent:
  "\<not> str_includes doc (S ''<head>'') \<Longrightarrow> inject_head doc imp sty = imp @ sty @ doc"
  by (simp add: inject_head_def)

lemma inject_body_absent:
  "\<not> str_includes doc (S ''<body>'') \<Longrightarrow> inject_body doc = doc @ errorScript"
  by (simp add: inject_body_def)

lemma inject_head_at:
  assumes "index_of (S ''<head>'') doc = Some i"
  shows "inject_head doc imp sty =
           take i doc
           @ get_substitution (S ''<head>'') (take i doc) (drop (i + 6) doc) (S ''<head>'' @ imp @ sty)
           @ drop (i + 6) doc"
  using assms by (simp add: inject_head_def str_includes_def replace_string_at tag_lengths del: length_S)

lemma head_template_plain:
  assumes "ch CHR ''$'' \<notin> set (imp @ sty)"
  shows "get_substitution m a b (S ''<head>'' @ imp @ sty) = S ''<head>'' @ imp @ sty"
proof -
  have "ch CHR ''$'' \<notin> set (S ''<head>'')" by (simp add: S_def)
  with assms show ?thesis by (intro get_substitution_plain) simp
qed

lemma inject_body_at:
  assumes "index_of (S ''<body>'') doc = Some i"
  shows "inject_body doc = take i doc @ S ''<body>'' @ errorScript @ drop (i + 6) doc"
proof -
  have "ch CHR ''$'' \<notin> set (S ''<body>'' @ errorScript)"
    using errorScript_plain by (simp add: S_def)
  then have "get_substitution m a b (S ''<body>'' @ errorScript) = S ''<body>'' @ errorScript" for m a b
    by (rule get_substitution_plain)
  with assms show ?thesis
    by (simp add: inject_body_def str_includes_def replace_string_at tag_lengths del: length_S)
qed

text \<open>
  Where the assembler departs from the claim as it was stated.  The tags have six
  characters.  A document whose head tag carries attributes is not on the fallback path
  when the literal \<^verbatim>\<open><head>\<close> occurs elsewhere in it.  The search for \<^verbatim>\<open><body>\<close> runs
  on the document that already holds the inserted blocks, so a style sheet that mentions
  \<^verbatim>\<open><body>\<close> receives the error script, which is then not appended at the end.  And a
  block that holds \<^verbatim>\<open>$&\<close> is not inserted as it is.
\<close>

theorem injection_departs_from_the_claim:
  \<open>length (S ''<head>'') = 6 \<and> length (S ''<body>'') = 6
   \<and> inject_head (S ''<head lang="en"><!-- <head> -->'') (S ''M'') []
       = S ''<head lang="en"><!-- <head>M -->''
   \<and> inject_head (S ''<head lang="en"><!-- <head> -->'') (S ''M'') []
       \<noteq> S ''M'' @ S ''<head lang="en"><!-- <head> -->''
   \<and> inject_body (inject_head (S ''<body class="x">'') (S ''M'') (S ''<style>/* <body> */</style>''))
       = S ''M<style>/* <body>'' @ errorScript @ S '' */</style><body class="x">''
   \<and> inject_body (inject_head (S ''<body class="x">'') (S ''M'') (S ''<style>/* <body> */</style>''))
       \<noteq> S ''M'' @ S ''<style>/* <body> */</style>'' @ S ''<body class="x">'' @ errorScript
   \<and> inject_head (S ''<head>'') [] (S ''<style>a:after{content:"$&"}</style>'')
       = S ''<head><style>a:after{content:"<head>"}</style>''
   \<and> inject_head (S ''<head>'') [] (S ''<style>a:after{content:"$&"}</style>'')
       \<noteq> S ''<head>'' @ S ''<style>a:after{content:"$&"}</style>''\<close>
  by code_simp

text \<open>
  C10 (as amended).  The two injections look for the literal six-character strings
  \<^verbatim>\<open><head>\<close> and \<^verbatim>\<open><body>\<close> and act on the first occurrence only.  A document without
  the literal string, such as one whose tag carries attributes, takes the fallback: the
  import map and the styles go before the document, the error script after it.  When
  \<^verbatim>\<open><head>\<close> occurs and the inserted blocks hold no dollar sign, the blocks are inserted
  once, right after the first occurrence, and the rest of the document is unchanged; the
  same holds for \<^verbatim>\<open><body>\<close> and the error script.
\<close>

theorem injection_is_literal:
  \<open>length (S ''<head>'') = 6 \<and> length (S ''<body>'') = 6
   \<and> (str_includes doc (S ''<head>'') \<longleftrightarrow> (\<exists>a b. doc = a @ S ''<head>'' @ b))
   \<and> (str_includes doc (S ''<body>'') \<longleftrightarrow> (\<exists>a b. doc = a @ S ''<body>'' @ b))
   \<and> \<not> str_includes (S ''<head lang="en">'') (S ''<head>'')
   \<and> \<not> str_includes (S ''<body class="x">'') (S ''<body>'')
   \<and> (\<not> str_includes doc (S ''<head>'') \<longrightarrow> inject_head doc imp sty = imp @ sty @ doc)
   \<and> (\<not> str_includes doc (S ''<body>'') \<longrightarrow> inject_body doc = doc @ errorScript)
   \<and> (\<not> str_includes doc (S ''<head>'') \<and> \<not> str_includes (imp @ sty @ doc) (S ''<body>'')
        \<longrightarrow> inject_body (inject_head doc imp sty) = imp @ sty @ doc @ errorScript)
   \<and> (index_of (S ''<head>'') doc = Some i \<and> ch CHR ''$'' \<notin> set (imp @ sty)
        \<longrightarrow> inject_head doc imp sty = take i doc @ S ''<head>'' @ imp @ sty @ drop (i + 6) doc
            \<and> take 6 (drop i doc) = S ''<head>''
            \<and> (\<forall>j<i. take 6 (drop j doc) \<noteq> S ''<head>''))
   \<and> (index_of (S ''<body>'') doc = Some i
        \<longrightarrow> inject_body doc = take i doc @ S ''<body>'' @ errorScript @ drop (i + 6) doc
            \<and> take 6 (drop i doc) = S ''<body>''
            \<and> (\<forall>j<i. take 6 (drop j doc) \<noteq> S ''<body>''))\<close>
proof -
  have a: \<open>\<not> str_includes (S ''<head lang="en">'') (S ''<head>'')\<close>
    \<open>\<not> str_includes (S ''<body class="x">'') (S ''<body>'')\<close>
    by code_simp+
  have h: "inject_head doc imp sty = take i doc @ S ''<head>'' @ imp @ sty @ drop (i + 6) doc
            \<and> take 6 (drop i doc) = S ''<head>''
            \<and> (\<forall>j<i. take 6 (drop j doc) \<noteq> S ''<head>'')"
    if "index_of (S ''<head>'') doc = Some i" "ch CHR ''$'' \<notin> set (imp @ sty)"
    using inject_head_at [OF that(1)] head_template_plain [OF that(2)] index_of_Some [OF that(1)]
    by (simp add: tag_lengths del: length_S)
  have b: "inject_body doc = take i doc @ S ''<body>'' @ errorScript @ drop (i + 6) doc
            \<and> take 6 (drop i doc) = S ''<body>''
            \<and> (\<forall>j<i. take 6 (drop j doc) \<noteq> S ''<body>'')"
    if "index_of (S ''<body>'') doc = Some i"
    using inject_body_at [OF that] index_of_Some [OF that]
    by (simp add: tag_lengths del: length_S)
  have c: "inject_body (inject_head doc imp sty) = imp @ sty @ doc @ errorScript"
    if "\<not> str_includes doc (S ''<head>'')" "\<not> str_includes (imp @ sty @ doc) (S ''<body>'')"
    using that by (simp add: inject_head_absent inject_body_absent)
  show ?thesis
    using a h b c inject_head_absent [of doc imp sty] inject_body_absent [of doc]
      str_includes_iff [of doc "S ''<head>''"] str_includes_iff [of doc "S ''<body>''"]
    by simp
qed

theorem injection_is_literal_witness:
  \<open>\<not> str_includes (S ''<head lang="en"><body class="x">'') (S ''<head>'')
   \<and> \<not> str_includes (S ''M'' @ S ''s'' @ S ''<head lang="en"><body class="x">'') (S ''<body>'')
   \<and> inject_body (inject_head (S ''<head lang="en"><body class="x">'') (S ''M'') (S ''s''))
       = S ''M'' @ S ''s'' @ S ''<head lang="en"><body class="x">'' @ errorScript
   \<and> index_of (S ''<head>'') (S ''<p><head><body><head>'') = Some 3
   \<and> ch CHR ''$'' \<notin> set (S ''M'' @ S ''s'')
   \<and> inject_head (S ''<p><head><body><head>'') (S ''M'') (S ''s'') = S ''<p><head>Ms<body><head>''
   \<and> index_of (S ''<body>'') (S ''<p><head><body><head>'') = Some 9
   \<and> inject_body (S ''<p><head><body><head>'') = S ''<p><head><body>'' @ errorScript @ S ''<head>''\<close>
proof -
  have a: \<open>\<not> str_includes (S ''<head lang="en"><body class="x">'') (S ''<head>'')\<close>
    \<open>\<not> str_includes (S ''M'' @ S ''s'' @ S ''<head lang="en"><body class="x">'') (S ''<body>'')\<close>
    "index_of (S ''<head>'') (S ''<p><head><body><head>'') = Some 3"
    "ch CHR ''$'' \<notin> set (S ''M'' @ S ''s'')"
    "index_of (S ''<body>'') (S ''<p><head><body><head>'') = Some 9"
    by code_simp+
  have b: "take 3 (S ''<p><head><body><head>'') @ S ''<head>'' @ S ''M'' @ S ''s''
             @ drop (3 + 6) (S ''<p><head><body><head>'') = S ''<p><head>Ms<body><head>''"
    "take 9 (S ''<p><head><body><head>'') = S ''<p><head>''"
    "drop (9 + 6) (S ''<p><head><body><head>'') = S ''<head>''"
    by code_simp+
  have c1: \<open>inject_body (inject_head (S ''<head lang="en"><body class="x">'') (S ''M'') (S ''s''))
       = S ''M'' @ S ''s'' @ S ''<head lang="en"><body class="x">'' @ errorScript\<close>
    using a(1,2) injection_is_literal [of \<open>S ''<head lang="en"><body class="x">''\<close> "S ''M''" "S ''s''" 0]
    by blast
  have c2: "inject_head (S ''<p><head><body><head>'') (S ''M'') (S ''s'')
       = take 3 (S ''<p><head><body><head>'') @ S ''<head>'' @ S ''M'' @ S ''s''
             @ drop (3 + 6) (S ''<p><head><body><head>'')"
    using a(3,4) injection_is_literal [of "S ''<p><head><body><head>''" "S ''M''" "S ''s''" 3]
    by blast
  have c3: "inject_body (S ''<p><head><body><head>'')
       = take 9 (S ''<p><head><body><head>'') @ S ''<body>'' @ errorScript
           @ drop (9 + 6) (S ''<p><head><body><head>'')"
    using a(5) injection_is_literal [of "S ''<p><head><body><head>''" "S ''M''" "S ''s''" 9]
    by blast
  have d: "S ''<p><head>'' @ S ''<body>'' @ errorScript @ S ''<head>''
             = S ''<p><head><body>'' @ errorScript @ S ''<head>''"
    by (simp add: S_def)
  show ?thesis
    unfolding c1 c2 c3 b d using a by blast
qed

section \<open>The shell, piece by piece\<close>

lemma join_append:
  "xs \<noteq> [] \<Longrightarrow> ys \<noteq> [] \<Longrightarrow> join sep (xs @ ys) = join sep xs @ sep @ join sep ys"
proof (induction sep xs rule: join.induct)
  case (1 sep)
  then show ?case by simp
next
  case (2 sep x)
  then show ?case by (cases ys) simp_all
next
  case (3 sep x y ys')
  then show ?case by simp
qed

lemma join_Cons_nonempty: "ys \<noteq> [] \<Longrightarrow> join sep (x # ys) = x @ sep @ join sep ys"
  by (cases ys) simp_all

lemma shell_lines_split:
  \<open>shell_lines =
     take 2 shell_lines @ [S ''<head>''] @ take 50 (drop 3 shell_lines) @ [S ''<body>'']
     @ take 11 (drop 54 shell_lines)
     @ [S ''    <script type="module" src="./src/main.js"></script>''] @ drop 66 shell_lines\<close>
  by (simp add: shell_lines_def)

lemma shell_lines_nonempty:
  "take 2 shell_lines \<noteq> []" "take 50 (drop 3 shell_lines) \<noteq> []"
  "take 11 (drop 54 shell_lines) \<noteq> []" "drop 66 shell_lines \<noteq> []"
  by (simp_all add: shell_lines_def)

lemma shell_split:
  "INITIAL_index_html =
     shell_A @ S ''<head>'' @ shell_B @ S ''<body>'' @ shell_C @ entry_tag @ shell_D"
proof -
  define L0 where "L0 = take 2 shell_lines"
  define L1 where "L1 = take 50 (drop 3 shell_lines)"
  define L2 where "L2 = take 11 (drop 54 shell_lines)"
  define L3 where "L3 = drop 66 shell_lines"
  define nl where "nl = [ch CHR 0x0A]"
  have ne: "L0 \<noteq> []" "L1 \<noteq> []" "L2 \<noteq> []" "L3 \<noteq> []"
    using shell_lines_nonempty by (simp_all add: L0_def L1_def L2_def L3_def)
  have e: \<open>S ''    <script type="module" src="./src/main.js"></script>'' = S ''    '' @ entry_tag\<close>
    by (simp add: S_def entry_tag_def)
  have "INITIAL_index_html =
      join nl (L0 @ [S ''<head>''] @ L1 @ [S ''<body>''] @ L2 @ [S ''    '' @ entry_tag] @ L3)"
    unfolding INITIAL_index_html_def nl_def L0_def L1_def L2_def L3_def
    by (subst shell_lines_split) (simp only: e)
  also have "\<dots> = (join nl L0 @ nl) @ S ''<head>'' @ (nl @ join nl L1 @ nl) @ S ''<body>''
      @ (nl @ join nl L2 @ nl @ S ''    '') @ entry_tag @ (nl @ join nl L3)"
    using ne by (simp add: join_append join_Cons_nonempty)
  finally show ?thesis
    by (simp only: shell_A_def shell_B_def shell_C_def shell_D_def L0_def L1_def L2_def L3_def nl_def)
qed

lemma exec_entry_start:
  assumes "exec_at n entry_script_re s \<noteq> None"
  shows "\<exists>t. s = S ''<script'' @ t"
proof -
  from assms obtain st' where "st' \<in> set (matches n entry_script_re (s, []))"
    unfolding exec_at_iff by blast
  then show ?thesis
    unfolding entry_script_re_def cat.simps in_matches_Seq in_matches_Lit by auto
qed

lemma entry_skip_clean:
  "clean (S ''<script'') a \<Longrightarrow>
   replace_from n entry_script_re f (a @ rest) = a @ replace_from n entry_script_re f rest"
proof (induction a)
  case Nil
  then show ?case by simp
next
  case (Cons c a)
  have "exec_at n entry_script_re ((c # a) @ rest) = None"
  proof (rule ccontr)
    assume "exec_at n entry_script_re ((c # a) @ rest) \<noteq> None"
    then obtain t where "(c # a) @ rest = S ''<script'' @ t"
      using exec_entry_start by blast
    then have "compatible (S ''<script'') (c # a)" by (rule compatible_appendI)
    with Cons.prems show False by simp
  qed
  with Cons show ?case by (simp add: replace_from_None)
qed

lemma entry_no_match_at_end: "replace_from n entry_script_re f [] = []"
proof -
  have "exec_at n entry_script_re [] = None"
  proof (rule ccontr)
    assume "exec_at n entry_script_re [] \<noteq> None"
    then obtain t where "[] = S ''<script'' @ t"
      using exec_entry_start by blast
    then show False by (simp add: S_def)
  qed
  then show ?thesis by (simp add: replace_from_None)
qed

lemma space_facts:
  "is_space (ch CHR '' '')" "\<not> is_space (ch CHR ''>'')" "\<not> is_space (ch CHR ''t'')"
  "\<not> is_space (ch CHR ''s'')"
  by code_simp+

lemma exec_bridge_script: "exec_at n entry_script_re (S ''<script>'' @ R) = None"
  by (simp add: exec_at_def entry_script_re_def matches.simps S_def Plus_def space_facts)

lemma exec_entry_tag:
  "exec_at n entry_script_re (entry_tag @ R) = Some (R, [S ''./src/main.js''])"
  by (simp add: entry_tag_def exec_at_def entry_script_re_def matches.simps S_def Plus_def
      space_facts quote_cls_def not_quote_cls_def)

lemma inline_entry_tag: "inline_entry entry_tag [S ''./src/main.js''] = inline_tag"
  by code_simp

lemma compatible_S_Cons:
  "compatible (S (x # p)) (c # s) = (ch x = c \<and> compatible (S p) s)"
  by (simp add: S_def)

lemma clean_appendT: "clean p a \<Longrightarrow> clean p b \<Longrightarrow> clean p (a @ b) = True"
  by (simp add: clean_append)

lemma emoji_facts: "ch CHR ''<'' \<noteq> 0xD83C" "ch CHR ''<'' \<noteq> 0xDFC6"
  by code_simp+

lemma shell_clean_script:
  "list_all (clean (S ''<script'')) (take 40 shell_lines)"
  "list_all (clean (S ''<script'')) (take 24 (drop 41 shell_lines))"
  "list_all (clean (S ''<script'')) (drop 66 shell_lines)"
  by (simp_all add: shell_lines_def clean_S clean_appendT compatible_S_Cons emoji_facts)

lemma shell_clean_tags:
  "list_all (clean (S ''<head>'')) (take 2 shell_lines)"
  "list_all (clean (S ''<body>'')) (take 2 shell_lines)"
  "list_all (clean (S ''<body>'')) (take 50 (drop 3 shell_lines))"
  by (simp_all add: shell_lines_def clean_S clean_appendT compatible_S_Cons emoji_facts)

lemma clean_misc:
  "clean (S ''<script'') [ch CHR 0x0A]" "clean (S ''<head>'') [ch CHR 0x0A]"
  "clean (S ''<body>'') [ch CHR 0x0A]" "clean (S ''<script'') (S ''    '')"
  "clean (S ''<script'') (S ''script>'')" "clean (S ''<body>'') (S ''<head>'')"
  by code_simp+

lemma shell_front:
  "shell_A @ S ''<head>'' @ shell_B @ S ''<body>'' @ shell_C =
     (join [ch CHR 0x0A] (take 40 shell_lines) @ [ch CHR 0x0A] @ S ''    '')
     @ S ''<script>''
     @ ([ch CHR 0x0A] @ join [ch CHR 0x0A] (take 24 (drop 41 shell_lines)) @ [ch CHR 0x0A]
        @ S ''    '')"
proof -
  define L0 where "L0 = take 2 shell_lines"
  define L1 where "L1 = take 50 (drop 3 shell_lines)"
  define L2 where "L2 = take 11 (drop 54 shell_lines)"
  define M0 where "M0 = take 40 shell_lines"
  define M1 where "M1 = take 24 (drop 41 shell_lines)"
  define nl where "nl = [ch CHR 0x0A]"
  have ne: "L0 \<noteq> []" "L1 \<noteq> []" "L2 \<noteq> []" "M0 \<noteq> []" "M1 \<noteq> []"
    by (simp_all add: L0_def L1_def L2_def M0_def M1_def shell_lines_def)
  have same: "L0 @ [S ''<head>''] @ L1 @ [S ''<body>''] @ L2 = M0 @ [S ''    <script>''] @ M1"
    by (simp add: L0_def L1_def L2_def M0_def M1_def shell_lines_def)
  have b: "S ''    <script>'' = S ''    '' @ S ''<script>''"
    by (simp add: S_def)
  have "shell_A @ S ''<head>'' @ shell_B @ S ''<body>'' @ shell_C =
      join nl (L0 @ [S ''<head>''] @ L1 @ [S ''<body>''] @ L2) @ nl @ S ''    ''"
    using ne
    by (simp add: shell_A_def shell_B_def shell_C_def join_append join_Cons_nonempty
        flip: L0_def L1_def L2_def nl_def)
  also have "\<dots> = join nl (M0 @ [S ''    <script>''] @ M1) @ nl @ S ''    ''"
    by (simp only: same)
  also have "\<dots> = (join nl M0 @ nl @ S ''    '') @ S ''<script>'' @ (nl @ join nl M1 @ nl @ S ''    '')"
    using ne by (simp add: join_append join_Cons_nonempty b)
  finally show ?thesis
    by (simp only: M0_def M1_def nl_def)
qed

lemma shell_inline:
  "inline_entry_scripts INITIAL_index_html =
     shell_A @ S ''<head>'' @ shell_B @ S ''<body>'' @ shell_C @ inline_tag @ shell_D"
proof -
  define X1 where "X1 = join [ch CHR 0x0A] (take 40 shell_lines) @ [ch CHR 0x0A] @ S ''    ''"
  define X2 where "X2 = S ''script>'' @ [ch CHR 0x0A]
      @ join [ch CHR 0x0A] (take 24 (drop 41 shell_lines)) @ [ch CHR 0x0A] @ S ''    ''"
  define n where "n = length INITIAL_index_html"
  define f where "f = inline_entry"
  have c1: "clean (S ''<script'') X1"
    unfolding X1_def
    by (intro clean_append clean_join shell_clean_script clean_misc)
  have c2: "clean (S ''<script'') X2"
    unfolding X2_def
    by (intro clean_append clean_join shell_clean_script clean_misc)
  have c3: "clean (S ''<script'') shell_D"
    unfolding shell_D_def
    by (intro clean_append clean_join shell_clean_script clean_misc)
  have front: "shell_A @ S ''<head>'' @ shell_B @ S ''<body>'' @ shell_C = X1 @ ch CHR ''<'' # X2"
    unfolding shell_front X1_def X2_def by (simp add: S_def)
  have bridge: "exec_at n entry_script_re (ch CHR ''<'' # X2 @ R) = None" for R
    using exec_bridge_script [of n "drop 7 X2 @ R"] by (simp add: X2_def S_def)
  have "replace_from n entry_script_re f shell_D = shell_D"
    using entry_skip_clean [OF c3, of n f "[]"] by (simp add: entry_no_match_at_end)
  moreover have "length (fst (shell_D, [S ''./src/main.js''])) < length (entry_tag @ shell_D)"
    by (simp add: entry_tag_def)
  ultimately have tail: "replace_from n entry_script_re f (entry_tag @ shell_D) = inline_tag @ shell_D"
    using replace_from_Some [OF exec_entry_tag, of shell_D n f]
    by (simp add: f_def inline_entry_tag)
  have front': "shell_A @ S ''<head>'' @ shell_B @ S ''<body>'' @ shell_C @ R = X1 @ ch CHR ''<'' # X2 @ R"
    for R
    using arg_cong [OF front, of "\<lambda>x. x @ R"] by simp
  have "INITIAL_index_html = X1 @ ch CHR ''<'' # X2 @ entry_tag @ shell_D"
    by (simp only: shell_split front')
  then have "inline_entry_scripts INITIAL_index_html =
      replace_from n entry_script_re f (X1 @ ch CHR ''<'' # X2 @ entry_tag @ shell_D)"
    by (simp add: inline_entry_scripts_def replace_all_def n_def f_def)
  also have "\<dots> = X1 @ replace_from n entry_script_re f (ch CHR ''<'' # X2 @ entry_tag @ shell_D)"
    by (rule entry_skip_clean [OF c1])
  also have "\<dots> = X1 @ ch CHR ''<'' # replace_from n entry_script_re f (X2 @ entry_tag @ shell_D)"
    by (simp add: replace_from_None [OF bridge])
  also have "\<dots> = X1 @ ch CHR ''<'' # X2 @ replace_from n entry_script_re f (entry_tag @ shell_D)"
    by (simp only: entry_skip_clean [OF c2])
  also have "\<dots> = (X1 @ ch CHR ''<'' # X2) @ inline_tag @ shell_D"
    by (simp add: tail)
  finally show ?thesis
    by (simp add: front')
qed

section \<open>Assembling around the shell\<close>

lemma shell_clean_head: "clean (S ''<head>'') shell_A"
  unfolding shell_A_def
  by (intro clean_append clean_join shell_clean_tags clean_misc)

lemma shell_clean_body_A: "clean (S ''<body>'') shell_A"
  unfolding shell_A_def
  by (intro clean_append clean_join shell_clean_tags clean_misc)

lemma shell_clean_body_B: "clean (S ''<body>'') shell_B"
  unfolding shell_B_def
  by (intro clean_append clean_join shell_clean_tags clean_misc)

lemma inject_head_first:
  assumes "clean (S ''<head>'') a"
  shows "inject_head (a @ S ''<head>'' @ b) imp sty =
           a @ get_substitution (S ''<head>'') a b (S ''<head>'' @ imp @ sty) @ b"
  using index_of_first [OF assms, of b]
  by (simp add: inject_head_def str_includes_def replace_string_first [OF assms])

lemma inject_body_first:
  assumes "clean (S ''<body>'') a"
  shows "inject_body (a @ S ''<body>'' @ b) = a @ S ''<body>'' @ errorScript @ b"
proof -
  have "ch CHR ''$'' \<notin> set (S ''<body>'' @ errorScript)"
    using errorScript_plain by (simp add: S_def)
  then have "get_substitution m x y (S ''<body>'' @ errorScript) = S ''<body>'' @ errorScript" for m x y
    by (rule get_substitution_plain)
  then show ?thesis
    using index_of_first [OF assms, of b]
    by (simp add: inject_body_def str_includes_def replace_string_first [OF assms])
qed

lemma shell_assembled:
  assumes "ch CHR ''$'' \<notin> set (imp @ sty)" and "clean (S ''<body>'') (imp @ sty)"
  shows "inject_body (inject_head (inline_entry_scripts INITIAL_index_html) imp sty) =
           shell_A @ S ''<head>'' @ imp @ sty @ shell_B @ S ''<body>'' @ errorScript
           @ shell_C @ inline_tag @ shell_D"
proof -
  define F where "F = shell_C @ inline_tag @ shell_D"
  define P where "P = shell_A @ S ''<head>'' @ (imp @ sty) @ shell_B"
  have c: "clean (S ''<body>'') P"
    unfolding P_def
    by (rule clean_append [OF shell_clean_body_A
          clean_append [OF clean_misc(6) clean_append [OF assms(2) shell_clean_body_B]]])
  have "inject_head (inline_entry_scripts INITIAL_index_html) imp sty =
          shell_A @ get_substitution (S ''<head>'') shell_A (shell_B @ S ''<body>'' @ F)
                      (S ''<head>'' @ imp @ sty)
          @ shell_B @ S ''<body>'' @ F"
    unfolding F_def by (simp only: shell_inline inject_head_first [OF shell_clean_head])
  also have "\<dots> = shell_A @ (S ''<head>'' @ imp @ sty) @ shell_B @ S ''<body>'' @ F"
    by (simp only: head_template_plain [OF assms(1)])
  also have "\<dots> = P @ S ''<body>'' @ F"
    unfolding P_def by (simp only: append_assoc)
  finally have "inject_body (inject_head (inline_entry_scripts INITIAL_index_html) imp sty)
      = P @ S ''<body>'' @ errorScript @ F"
    by (simp only: inject_body_first [OF c])
  then show ?thesis
    unfolding P_def F_def by (simp only: append_assoc)
qed

lemma scenario_script_facts:
  "ch CHR ''$'' \<notin> set (importMapScript scenario_imports)"
  "clean (S ''<body>'') (importMapScript scenario_imports)"
  by code_simp+

section \<open>The scenario of the specification\<close>

lemma scenario_entry_document: "entry_document scenario_vfs = INITIAL_index_html"
  by (simp add: entry_document_def obj_get_def scenario_vfs_def INITIAL_FILES_def)

lemma css_facts:
  "\<not> endsWith (S ''index.html'') (S ''.css'')"
  "endsWith (S ''style.css'') (S ''.css'')"
  "array_index (S ''style.css'') = None"
  "S ''style.css'' \<noteq> S ''__proto__''"
  "S ''index.html'' \<noteq> S ''style.css''"
  "\<not> is_source_path (S ''style.css'')"
  by code_simp+

lemma scenario_styleTag: "styleTag scenario_vfs = []"
  using keys_facts css_facts
  by (simp add: styleTag_def cssContent_def scenario_vfs_def INITIAL_FILES_def own_entries_def)

lemma scenario_listing:
  \<open>str_includes (importMapScript scenario_imports) (S ''"preact": "https://esm.sh/preact@10.19.6"'')\<close>
  \<open>startsWith (importMapScript scenario_imports) ([ch CHR 0x0A] @ S ''    <script type="importmap">'')\<close>
  "obj_get scenario_imports (S ''preact'') = Some (S ''https://esm.sh/preact@10.19.6'')"
  by code_simp+


section \<open>A dollar sign in the style block\<close>

lemma get_substitution_prefix:
  "ch CHR ''$'' \<notin> set a \<Longrightarrow>
   get_substitution m p f (a @ t) = a @ get_substitution m p f t"
proof (induction a)
  case Nil
  then show ?case by simp
next
  case (Cons c a)
  then have c: "c \<noteq> ch CHR ''$''" and IH: "get_substitution m p f (a @ t) = a @ get_substitution m p f t"
    by auto
  show ?case
  proof (cases "a @ t")
    case Nil
    then show ?thesis by simp
  next
    case (Cons d r)
    with c have "get_substitution m p f (c # a @ t) = c # get_substitution m p f (a @ t)"
      by simp
    with IH show ?thesis by simp
  qed
qed

lemma get_substitution_following:
  "get_substitution m p f (ch CHR ''$'' # ch CHR 0x27 # t) = f @ get_substitution m p f t"
  by simp

lemma dollar_entry_document: "entry_document dollar_vfs = INITIAL_index_html"
  by (simp add: entry_document_def obj_get_def dollar_vfs_def INITIAL_FILES_def)

lemma dollar_processed:
  \<open>processFiles dollar_vfs =
     [(S ''index.html'', INITIAL_index_html), (S ''style.css'', S ''.price::before{content:\'$\'}'')]\<close>
  using keys_facts css_facts
  by (simp add: processFiles_def dollar_vfs_def INITIAL_FILES_def own_entries_def
      obj_assign_def obj_get_def process_file_def)

lemma dollar_synthesized: "synthesize_imports dollar_vfs = Inr registry"
  using keys_facts css_facts
  by (simp add: synthesize_imports_def dollar_processed own_entries_def import_step_def)

lemma dollar_styleTag:
  "styleTag dollar_vfs = dollar_style_before @ ch CHR ''$'' # ch CHR 0x27 # dollar_style_after"
proof -
  have \<open>cssContent dollar_vfs =
      [ch CHR 0x0A] @ S ''/* '' @ S ''style.css'' @ S '' */'' @ [ch CHR 0x0A]
      @ S ''.price::before{content:\'$\'}'' @ [ch CHR 0x0A]\<close>
    using keys_facts css_facts
    by (simp add: cssContent_def dollar_vfs_def INITIAL_FILES_def own_entries_def)
  then show ?thesis
    by (simp add: styleTag_def dollar_style_before_def dollar_style_after_def S_def)
qed

lemma dollar_facts:
  "ch CHR ''$'' \<notin> set (S ''<head>'' @ importMapScript registry @ dollar_style_before)"
  "ch CHR ''$'' \<notin> set dollar_style_after"
  "clean (S ''<body>'') (importMapScript registry @ dollar_style_before)"
  by code_simp+

text \<open>
  C8.  With the style sheet \<^verbatim>\<open>.price::before{content:'$'}\<close> next to the shell, the
  style block is not what the build inserts after \<^verbatim>\<open><head>\<close>: the two characters
  \<^verbatim>\<open>$'\<close> of the block are replaced by the whole rest of the shell, the error script
  lands inside that copy, and the document differs from the shell with the import map
  and the style block inserted after \<^verbatim>\<open><head>\<close>.
\<close>

theorem dollar_sign_corrupts_the_head:
  \<open>styleTag dollar_vfs =
     S ''<style>'' @ [ch CHR 0x0A] @ S ''/* style.css */'' @ [ch CHR 0x0A]
     @ S ''.price::before{content:\'$\'}'' @ [ch CHR 0x0A] @ S ''</style>''
   \<and> synthesize_imports dollar_vfs = Inr registry
   \<and> buildPreviewContent dollar_vfs =
       Inr (shell_A @ S ''<head>'' @ importMapScript registry @ dollar_style_before
            @ shell_B @ S ''<body>'' @ errorScript @ shell_C @ inline_tag @ shell_D
            @ dollar_style_after
            @ shell_B @ S ''<body>'' @ shell_C @ inline_tag @ shell_D)
   \<and> buildPreviewContent dollar_vfs \<noteq>
       Inr (shell_A @ S ''<head>'' @ importMapScript registry @ styleTag dollar_vfs
            @ shell_B @ S ''<body>'' @ errorScript @ shell_C @ inline_tag @ shell_D)\<close>
proof -
  define imp where "imp = importMapScript registry"
  define F where "F = shell_B @ S ''<body>'' @ shell_C @ inline_tag @ shell_D"
  define G where "G = shell_C @ inline_tag @ shell_D @ dollar_style_after @ F"
  define P where "P = shell_A @ S ''<head>'' @ (imp @ dollar_style_before) @ shell_B"
  have sty: \<open>styleTag dollar_vfs =
     S ''<style>'' @ [ch CHR 0x0A] @ S ''/* style.css */'' @ [ch CHR 0x0A]
     @ S ''.price::before{content:\'$\'}'' @ [ch CHR 0x0A] @ S ''</style>''\<close>
    by (simp add: dollar_styleTag dollar_style_before_def dollar_style_after_def S_def)
  have c: "clean (S ''<body>'') P"
    unfolding P_def imp_def
    by (rule clean_append [OF shell_clean_body_A
          clean_append [OF clean_misc(6) clean_append [OF dollar_facts(3) shell_clean_body_B]]])
  have subst: "get_substitution (S ''<head>'') shell_A F
                 (S ''<head>'' @ imp @ styleTag dollar_vfs)
               = (S ''<head>'' @ imp @ dollar_style_before) @ F @ dollar_style_after"
  proof -
    have "S ''<head>'' @ imp @ styleTag dollar_vfs =
        (S ''<head>'' @ imp @ dollar_style_before) @ ch CHR ''$'' # ch CHR 0x27 # dollar_style_after"
      by (simp add: dollar_styleTag)
    moreover have "get_substitution (S ''<head>'') shell_A F
          ((S ''<head>'' @ imp @ dollar_style_before) @ ch CHR ''$'' # ch CHR 0x27 # dollar_style_after)
        = (S ''<head>'' @ imp @ dollar_style_before)
          @ get_substitution (S ''<head>'') shell_A F (ch CHR ''$'' # ch CHR 0x27 # dollar_style_after)"
      unfolding imp_def by (rule get_substitution_prefix [OF dollar_facts(1)])
    moreover have "get_substitution (S ''<head>'') shell_A F dollar_style_after = dollar_style_after"
      by (rule get_substitution_plain [OF dollar_facts(2)])
    ultimately show ?thesis
      by (simp only: get_substitution_following)
  qed
  have "inject_head (inline_entry_scripts INITIAL_index_html) imp (styleTag dollar_vfs) =
          shell_A @ get_substitution (S ''<head>'') shell_A F
                      (S ''<head>'' @ imp @ styleTag dollar_vfs) @ F"
    unfolding F_def by (simp only: shell_inline inject_head_first [OF shell_clean_head])
  also have "\<dots> = P @ S ''<body>'' @ G"
    unfolding subst P_def G_def by (simp add: F_def)
  finally have "inject_body (inject_head (inline_entry_scripts INITIAL_index_html) imp
                  (styleTag dollar_vfs)) = P @ S ''<body>'' @ errorScript @ G"
    by (simp only: inject_body_first [OF c])
  then have build: "buildPreviewContent dollar_vfs = Inr (P @ S ''<body>'' @ errorScript @ G)"
    by (simp add: buildPreviewContent_def dollar_entry_document dollar_synthesized imp_def)
  have differ: "P @ S ''<body>'' @ errorScript @ G \<noteq>
      shell_A @ S ''<head>'' @ imp @ styleTag dollar_vfs
      @ shell_B @ S ''<body>'' @ errorScript @ shell_C @ inline_tag @ shell_D"
  proof
    assume "P @ S ''<body>'' @ errorScript @ G =
      shell_A @ S ''<head>'' @ imp @ styleTag dollar_vfs
      @ shell_B @ S ''<body>'' @ errorScript @ shell_C @ inline_tag @ shell_D"
    then have "shell_B @ S ''<body>'' @ errorScript @ G =
        ch CHR ''$'' # ch CHR 0x27 # dollar_style_after
        @ shell_B @ S ''<body>'' @ errorScript @ shell_C @ inline_tag @ shell_D"
      by (simp add: P_def dollar_styleTag)
    then show False
      by (simp add: shell_B_def)
  qed
  show ?thesis
    using sty dollar_synthesized build differ
    by (simp add: P_def G_def F_def imp_def)
qed

section \<open>The order of registration\<close>

lemma obj_put_fresh: "k \<notin> fst ` set ob \<Longrightarrow> obj_put ob k v = ob @ [(k, v)]"
  by (induction ob) auto

lemma obj_get_None_iff: "obj_get ob k = None \<longleftrightarrow> k \<notin> fst ` set ob"
  by (simp add: obj_get_def map_of_eq_None_iff)

lemma process_fold_entries:
  assumes "distinct (map fst es)" and "fst ` set es \<inter> fst ` set acc = {}"
    and "S ''__proto__'' \<notin> fst ` set acc"
  shows "foldl (\<lambda>processedFiles pf.
              obj_assign processedFiles (fst pf) (process_file (fst pf) (snd pf))) acc es
         = acc @ map (\<lambda>pf. (fst pf, process_file (fst pf) (snd pf)))
                   (filter (\<lambda>pf. fst pf \<noteq> S ''__proto__'') es)"
  using assms
proof (induction es arbitrary: acc)
  case Nil
  then show ?case by simp
next
  case (Cons e es)
  show ?case
  proof (cases "fst e = S ''__proto__''")
    case True
    with Cons.prems(3) have "obj_assign acc (fst e) (process_file (fst e) (snd e)) = acc"
      by (simp add: obj_assign_def obj_get_None_iff)
    with True Cons.IH [of acc] Cons.prems show ?thesis by auto
  next
    case False
    let ?acc = "acc @ [(fst e, process_file (fst e) (snd e))]"
    from Cons.prems(2) have "fst e \<notin> fst ` set acc" by auto
    with False have a: "obj_assign acc (fst e) (process_file (fst e) (snd e)) = ?acc"
      by (simp add: obj_assign_def obj_put_fresh)
    have "fst ` set es \<inter> fst ` set ?acc = {}" "S ''__proto__'' \<notin> fst ` set ?acc"
      using Cons.prems False by auto
    with Cons.IH [of ?acc] Cons.prems(1) a False show ?thesis by simp
  qed
qed

lemma own_entries_map_keys:
  assumes "\<And>x. fst (g x) = fst x"
  shows "own_entries (map g ob) = map g (own_entries ob)"
proof -
  have "sort_key index_rank (map g xs) = map g (sort_key index_rank xs)" for xs
    by (rule sort_key_map_values) (simp add: index_rank_def assms)
  then show ?thesis
    by (simp add: own_entries_def filter_map o_def assms)
qed

lemma own_entries_filter: "own_entries (filter Q ob) = filter Q (own_entries ob)"
proof -
  have "filter (\<lambda>x. P x \<and> Q x) ob = filter (\<lambda>x. Q x \<and> P x) ob" for P
    by (rule filter_cong) auto
  then show ?thesis
    by (simp add: own_entries_def filter_sort)
qed

lemma own_entries_idem: "own_entries (own_entries ob) = own_entries ob"
proof -
  define A where "A = sort_key index_rank (filter (\<lambda>kv. array_index (fst kv) \<noteq> None) ob)"
  define B where "B = filter (\<lambda>kv. array_index (fst kv) = None) ob"
  have A: "filter (\<lambda>kv. array_index (fst kv) \<noteq> None) A = A"
    "filter (\<lambda>kv. array_index (fst kv) = None) A = []"
    unfolding A_def by (auto intro: filter_True filter_False)
  have B: "filter (\<lambda>kv. array_index (fst kv) \<noteq> None) B = []"
    "filter (\<lambda>kv. array_index (fst kv) = None) B = B"
    unfolding B_def by (auto intro: filter_True filter_False)
  have s: "sort_key index_rank A = A"
    unfolding A_def by (rule sort_key_id_if_sorted) simp
  have "own_entries ob = A @ B"
    by (simp only: own_entries_def A_def B_def)
  moreover have "own_entries (A @ B) = A @ B"
    by (simp only: own_entries_def filter_append A B s append_Nil append_Nil2)
  ultimately show ?thesis by simp
qed

lemma processFiles_entries:
  assumes "distinct (map fst vfs)"
  shows "own_entries (processFiles vfs) =
           map (\<lambda>pf. (fst pf, process_file (fst pf) (snd pf)))
             (filter (\<lambda>pf. fst pf \<noteq> S ''__proto__'') (own_entries vfs))"
proof -
  have "processFiles vfs =
      map (\<lambda>pf. (fst pf, process_file (fst pf) (snd pf)))
        (filter (\<lambda>pf. fst pf \<noteq> S ''__proto__'') (own_entries vfs))"
    unfolding processFiles_def
    using process_fold_entries [of "own_entries vfs" "[]"] assms
    by (simp add: distinct_own_entries)
  then show ?thesis
    by (simp add: own_entries_map_keys own_entries_filter own_entries_idem)
qed

lemma import_loop_no_proto:
  assumes "import_loop imps es = Inr final" and "obj_get imps (S ''__proto__'') = None"
  shows "obj_get final (S ''__proto__'') = None"
  using assms
proof (induction es arbitrary: imps)
  case Nil
  then show ?case by simp
next
  case (Cons pc es)
  obtain p c where pc: "pc = (p, c)" by (cases pc)
  from Cons.prems(1) obtain mid where mid: "import_step imps (p, c) = Inr mid"
    and rest: "import_loop mid es = Inr final"
    by (auto simp: pc split: sum.splits)
  have "obj_get mid (S ''__proto__'') = None"
    using mid Cons.prems(2)
    by (auto simp: import_step_cases obj_get_register_aliases split: if_splits sum.splits)
  then show ?case by (rule Cons.IH [OF rest])
qed

lemma registry_no_proto: "obj_get registry (S ''__proto__'') = None"
  by code_simp

lemma last_registered_wins:
  assumes syn: "synthesize_imports vfs = Inr imps" and dist: "distinct (map fst vfs)"
    and split: "own_entries vfs = before @ (path, file) # after"
    and src: "is_source_path path"
    and k: "k \<in> set (aliases path)" "k \<noteq> S ''__proto__''"
    and last: "\<forall>qg\<in>set after. is_source_path (fst qg) \<longrightarrow> k \<notin> set (aliases (fst qg))"
  shows "\<exists>uri. data_uri (rewrite_imports path (content file)) = Inr uri \<and> obj_get imps k = Some uri"
proof -
  let ?g = "\<lambda>pf. (fst pf, process_file (fst pf) (snd pf))"
  let ?np = "\<lambda>pf. fst pf \<noteq> S ''__proto__''"
  let ?c = "rewrite_imports path (content file)"
  have "path \<noteq> S ''__proto__''" using source_path_facts(3) [OF src] .
  then have es: "own_entries (processFiles vfs) =
      map ?g (filter ?np before) @ (path, ?c) # map ?g (filter ?np after)"
    using src by (simp add: processFiles_entries [OF dist] split process_file_def)
  from syn obtain mid uri where uri: "data_uri ?c = Inr uri"
    and rest: "import_loop (register_aliases mid path uri) (map ?g (filter ?np after)) = Inr imps"
    using import_loop_split [of registry "map ?g (filter ?np before)" path ?c
        "map ?g (filter ?np after)" imps, OF _ src]
    by (auto simp: synthesize_imports_def es)
  have "\<forall>pc\<in>set (map ?g (filter ?np after)). is_source_path (fst pc) \<longrightarrow> k \<notin> set (aliases (fst pc))"
    using last by auto
  from import_loop_untouched [OF rest this] k
  have "obj_get imps k = Some uri"
    by (simp add: obj_get_register_aliases)
  with uri show ?thesis by blast
qed

lemma collision_synthesized: "synthesize_imports collision_vfs = Inr collision_imports"
proof -
  have "synthesize_imports collision_vfs =
          import_loop registry [(S ''src/main.js'', S ''a()''), (S ''src/main.ts'', S ''b()'')]"
    using keys_facts more_keys_facts
    by (simp add: synthesize_imports_def collision_processed own_entries_def
        import_loop_skips_index_html del: import_loop.simps)
  also have "\<dots> = Inr collision_imports"
    by code_simp
  finally show ?thesis .
qed



section \<open>What reaches processedFiles\<close>

lemma non_source_file_is_stored:
  assumes "distinct (map fst vfs)" and "(path, file) \<in> set vfs"
    and "\<not> is_source_path path" and "path \<noteq> S ''__proto__''"
  shows "obj_get (processFiles vfs) path = Some (content file)"
proof -
  have "obj_get (processFiles vfs) path = Some (process_file path file)"
    unfolding processFiles_def
    by (rule process_fold_lookup) (use assms in \<open>simp_all add: distinct_own_entries\<close>)
  with assms(3) show ?thesis by (simp add: process_file_def)
qed

lemma proto_facts:
  "array_index (S ''__proto__'') = None"
  "S ''index.html'' \<noteq> S ''__proto__''"
  "\<not> is_source_path (S ''__proto__'')"
  by code_simp+

text \<open>
  C9.  A file that is not a source file does not always reach \<^verbatim>\<open>processedFiles\<close>.
  \<^verbatim>\<open>create_file\<close> stores a file under the path \<^verbatim>\<open>__proto__\<close>; the path has no source
  extension; and the rewriting stage ends with no entry for it, because the assignment
  \<^verbatim>\<open>processedFiles[path] = file.content\<close> runs the inherited setter.  For every other
  path the content is stored unchanged (\<open>non_source_file_is_stored\<close>).
\<close>

theorem proto_file_is_not_stored:
  "create_file \<lparr>files = INITIAL_FILES, selectedFile = Some (S ''index.html'')\<rparr>
       (S ''__proto__'') (S ''x'')
     = (\<lparr>files = proto_vfs, selectedFile = Some (S ''__proto__'')\<rparr>,
        S ''File '' @ [ch CHR 0x27] @ S ''__proto__'' @ [ch CHR 0x27] @ S '' created successfully.'')
   \<and> \<not> is_source_path (S ''__proto__'')
   \<and> obj_get proto_vfs (S ''__proto__'') =
       Some \<lparr>name = Some (S ''__proto__''), content = S ''x'', language = Some (S ''plaintext'')\<rparr>
   \<and> processFiles proto_vfs = [(S ''index.html'', INITIAL_index_html)]
   \<and> obj_get (processFiles proto_vfs) (S ''__proto__'') = None"
proof -
  have p: "processFiles proto_vfs = [(S ''index.html'', INITIAL_index_html)]"
    using keys_facts proto_facts
    by (simp add: processFiles_def proto_vfs_def INITIAL_FILES_def own_entries_def
        obj_assign_def obj_get_def process_file_def)
  have g: "getLanguageFromFilename (S ''__proto__'') = S ''plaintext''"
    by code_simp
  have c: "create_file \<lparr>files = INITIAL_FILES, selectedFile = Some (S ''index.html'')\<rparr>
       (S ''__proto__'') (S ''x'')
     = (\<lparr>files = proto_vfs, selectedFile = Some (S ''__proto__'')\<rparr>,
        S ''File '' @ [ch CHR 0x27] @ S ''__proto__'' @ [ch CHR 0x27] @ S '' created successfully.'')"
    using keys_facts proto_facts g
    by (simp add: create_file_def proto_vfs_def INITIAL_FILES_def own_entries_def S_def)
  show ?thesis
    using p c proto_facts
    by (simp add: obj_get_def proto_vfs_def INITIAL_FILES_def)
qed

end
